theory Spec2Isabelle
  imports
    Main
    "HOL-Library.Char_ord"
    "HOL-Library.List_Lexorder"
    "HOL-Library.Product_Lexorder"
    "HOL-Library.Multiset"
begin

section \<open>JavaScript values, rows and checkpoints\<close>

text \<open>
  The replication handles JSON documents. A value is one of the JavaScript values a
  document or a checkpoint can hold. Numbers are modelled as integers: the code only
  compares them, tests them for zero and hands them to the remote table. The model does
  not round them, while a JavaScript number holds an integer exactly only up to
  \<open>2^53\<close> in magnitude: a larger number of the table reaches the handler rounded.
  A statement that depends on a number of a row coming back to the remote unchanged
  therefore assumes it to be \<open>js_exact\<close>.
\<close>

datatype jsval =
    JUndefined
  | JNull
  | JBool bool
  | JNum int
  | JStr string
  | JArray "jsval list"
  | JObject "(string \<times> jsval) list"

text \<open>JavaScript's \<^verbatim>\<open>typeof value\<close>.\<close>

fun typeof :: "jsval \<Rightarrow> string" where
  "typeof JUndefined = ''undefined''"
| "typeof JNull = ''object''"
| "typeof (JBool b) = ''boolean''"
| "typeof (JNum n) = ''number''"
| "typeof (JStr s) = ''string''"
| "typeof (JArray vs) = ''object''"
| "typeof (JObject fs) = ''object''"

text \<open>
  JavaScript's truthiness, as used by \<^verbatim>\<open>a && b\<close> and \<^verbatim>\<open>if (a)\<close>: \<^verbatim>\<open>undefined\<close>,
  \<^verbatim>\<open>null\<close>, \<^verbatim>\<open>false\<close>, \<^verbatim>\<open>0\<close> and the empty string are falsy, everything else
  (arrays and objects included) is truthy.
\<close>

fun truthy :: "jsval \<Rightarrow> bool" where
  "truthy JUndefined = False"
| "truthy JNull = False"
| "truthy (JBool b) = b"
| "truthy (JNum n) = (n \<noteq> 0)"
| "truthy (JStr s) = (s \<noteq> [])"
| "truthy (JArray vs) = True"
| "truthy (JObject fs) = True"

text \<open>A value that a JavaScript number holds exactly, when it is a number at all.\<close>

fun js_exact :: "jsval \<Rightarrow> bool" where
  "js_exact (JNum n) = (\<bar>n\<bar> \<le> 2 ^ 53)"
| "js_exact v = True"

text \<open>
  A document or table row is a JSON object: its fields in order (\<^verbatim>\<open>Object.entries\<close>
  enumerates them so). \<^verbatim>\<open>row[field]\<close> is \<^verbatim>\<open>undefined\<close> for a field the object
  does not have.
\<close>

type_synonym row = "(string \<times> jsval) list"

definition row_get :: "row \<Rightarrow> string \<Rightarrow> jsval" where
  "row_get r f = (case map_of r f of None \<Rightarrow> JUndefined | Some v \<Rightarrow> v)"

text \<open>\<^verbatim>\<open>SupabaseReplicationCheckpoint\<close>.\<close>

record checkpoint =
  modified :: jsval
  primaryKeyValue :: jsval

text \<open>The result of a pull and the item of the realtime stream: \<^verbatim>\<open>{checkpoint, documents}\<close>.
  The checkpoint of a pull result is the caller's \<^verbatim>\<open>lastCheckpoint\<close> when no row came
  back, and that one may be absent.\<close>

record change_event =
  checkpoint :: "checkpoint option"
  documents :: "row list"

text \<open>\<^verbatim>\<open>RxReplicationWriteToMasterRow\<close>: a pending local write.\<close>

record push_row =
  newDocumentState :: row
  assumedMasterState :: "row option"

section \<open>The remote table\<close>

text \<open>
  Modelled from the spec: the Supabase client, which is not part of the repository. It is
  one table behind the abstract query surface the specification lists and the code uses: \<^verbatim>\<open>select\<close> with the filters \<^verbatim>\<open>gt\<close>, \<^verbatim>\<open>eq\<close>,
  \<^verbatim>\<open>is\<close>, \<^verbatim>\<open>and\<close>, \<^verbatim>\<open>or\<close>, ascending \<^verbatim>\<open>order\<close> and \<^verbatim>\<open>limit\<close>; \<^verbatim>\<open>insert\<close>; and
  \<^verbatim>\<open>update\<close> with an exact count of the rows it changed.
\<close>

record pg_error =
  code :: string
  message :: string

text \<open>The errors the handlers can raise: an error object of the remote, passed on as it
  is, one of the three \<^verbatim>\<open>Error\<close>s the code throws itself, or the \<^verbatim>\<open>TypeError\<close> of
  \<^verbatim>\<open>Object.entries(undefined)\<close>.\<close>

datatype error =
    RemoteError pg_error
  | InvalidBatchSize
  | UnsupportedFieldType string
  | NoRowWithPrimaryKey
  | TypeError

text \<open>A column the stored row does not have reads as SQL \<^verbatim>\<open>NULL\<close>.\<close>

definition column :: "row \<Rightarrow> string \<Rightarrow> jsval" where
  "column r c = (case map_of r c of None \<Rightarrow> JNull | Some v \<Rightarrow> v)"

text \<open>
  The order of the table's column values, as a sort key: numbers by value, strings
  lexicographically (ISO timestamps of one format are ordered by time this way),
  \<^verbatim>\<open>NULL\<close> after everything else, which is where an ascending \<^verbatim>\<open>ORDER BY\<close> puts it.
\<close>

fun sql_key :: "jsval \<Rightarrow> nat \<times> int \<times> string" where
  "sql_key (JNum n) = (0, n, [])"
| "sql_key (JStr s) = (1, 0, s)"
| "sql_key (JBool b) = (2, (if b then 1 else 0), [])"
| "sql_key (JArray vs) = (3, 0, [])"
| "sql_key (JObject fs) = (4, 0, [])"
| "sql_key JUndefined = (5, 0, [])"
| "sql_key JNull = (6, 0, [])"

text \<open>SQL comparisons: a comparison with \<^verbatim>\<open>NULL\<close> is never true; \<^verbatim>\<open>IS\<close> compares
  with \<^verbatim>\<open>NULL\<close>, \<^verbatim>\<open>TRUE\<close> or \<^verbatim>\<open>FALSE\<close> itself.\<close>

definition sql_gt :: "jsval \<Rightarrow> jsval \<Rightarrow> bool" where
  "sql_gt a b = (a \<noteq> JNull \<and> b \<noteq> JNull \<and> sql_key b < sql_key a)"

definition sql_eq :: "jsval \<Rightarrow> jsval \<Rightarrow> bool" where
  "sql_eq a b = (a \<noteq> JNull \<and> b \<noteq> JNull \<and> a = b)"

definition sql_is :: "jsval \<Rightarrow> jsval \<Rightarrow> bool" where
  "sql_is a b = (a = b)"

text \<open>
  A filter of the query builder. The code writes the checkpoint filter in PostgREST's
  text form, \<^verbatim>\<open>m.gt.V,and(m.eq.V,k.gt.W)\<close> inside \<^verbatim>\<open>or(...)\<close>, with the values put
  through \<^verbatim>\<open>JSON.stringify\<close>; the model keeps the expression that text denotes.
\<close>

datatype filter =
    FGt string jsval
  | FEq string jsval
  | FIs string jsval
  | FAnd "filter list"
  | FOr "filter list"

text \<open>A row passes a filter when the filter is true of it (not false and not unknown);
  the filters have no negation, so unknown can be read as false throughout.\<close>

fun filter_holds :: "row \<Rightarrow> filter \<Rightarrow> bool" where
  "filter_holds r (FGt c v) = sql_gt (column r c) v"
| "filter_holds r (FEq c v) = sql_eq (column r c) v"
| "filter_holds r (FIs c v) = sql_is (column r c) v"
| "filter_holds r (FAnd fs) = list_all (filter_holds r) fs"
| "filter_holds r (FOr fs) = list_ex (filter_holds r) fs"

text \<open>The state of a query builder: the filters added so far (all must hold), the
  \<^verbatim>\<open>order\<close> columns in the order of the calls, and the \<^verbatim>\<open>limit\<close>.\<close>

record query =
  q_filters :: "filter list"
  q_order :: "string list"
  q_limit :: "nat option"

definition q_select :: query where
  "q_select = \<lparr>q_filters = [], q_order = [], q_limit = None\<rparr>"

definition q_or :: "filter list \<Rightarrow> query \<Rightarrow> query" where
  "q_or fs q = q\<lparr>q_filters := q_filters q @ [FOr fs]\<rparr>"

definition q_eq :: "string \<Rightarrow> jsval \<Rightarrow> query \<Rightarrow> query" where
  "q_eq c v q = q\<lparr>q_filters := q_filters q @ [FEq c v]\<rparr>"

definition q_is :: "string \<Rightarrow> jsval \<Rightarrow> query \<Rightarrow> query" where
  "q_is c v q = q\<lparr>q_filters := q_filters q @ [FIs c v]\<rparr>"

definition q_order_by :: "string \<Rightarrow> query \<Rightarrow> query" where
  "q_order_by c q = q\<lparr>q_order := q_order q @ [c]\<rparr>"

definition q_limit_to :: "nat \<Rightarrow> query \<Rightarrow> query" where
  "q_limit_to n q = q\<lparr>q_limit := Some n\<rparr>"

text \<open>\<^verbatim>\<open>ORDER BY c1, c2, ...\<close>: the first column decides, the next one breaks its ties, and
  rows equal in all of them keep the table's order. Stable sorts, last column first.\<close>

definition apply_order :: "string list \<Rightarrow> row list \<Rightarrow> row list" where
  "apply_order cols rs = foldr (\<lambda>c. sort_key (\<lambda>r. sql_key (column r c))) cols rs"

definition matching :: "filter list \<Rightarrow> row \<Rightarrow> bool" where
  "matching fs r = list_all (filter_holds r) fs"

definition run_select :: "query \<Rightarrow> row list \<Rightarrow> row list" where
  "run_select q rs =
     (let found = apply_order (q_order q) (filter (matching (q_filters q)) rs)
      in case q_limit q of None \<Rightarrow> found | Some n \<Rightarrow> take n found)"

text \<open>
  The remote: the rows of the table; the columns under a uniqueness constraint (the
  primary key among them, when the table has one); the error with which the table
  refuses every insert while it serves reads and updates (a row-level security policy
  that does not allow inserting), if there is one; and a fault: while it is set, every
  request fails with that error (no network, no permission).
\<close>

record remote =
  table_rows :: "row list"
  unique_cols :: "string list"
  insert_denied :: "pg_error option"
  fault :: "pg_error option"

definition duplicate_key :: pg_error where
  "duplicate_key = \<lparr>code = ''23505'', message = ''duplicate key value violates unique constraint''\<rparr>"

definition r_select :: "remote \<Rightarrow> query \<Rightarrow> pg_error + row list" where
  "r_select R q =
     (case fault R of Some e \<Rightarrow> Inl e | None \<Rightarrow> Inr (run_select q (table_rows R)))"

text \<open>Two rows collide on a unique column when both have the same non-\<^verbatim>\<open>NULL\<close> value
  there.\<close>

definition collides :: "string list \<Rightarrow> row \<Rightarrow> row \<Rightarrow> bool" where
  "collides us r d = list_ex (\<lambda>u. sql_eq (column r u) (column d u)) us"

fun unique_ok :: "string list \<Rightarrow> row list \<Rightarrow> bool" where
  "unique_ok us [] = True"
| "unique_ok us (r # rs) = (\<not> list_ex (\<lambda>d. collides us r d) rs \<and> unique_ok us rs)"

text \<open>\<^verbatim>\<open>insert(doc)\<close>: the error of the request, if any, and the remote afterwards. The
  insert fails with the fault, else with the error of a table that refuses inserts, else
  with the duplicate-key error when the document collides with a row on any unique
  column; otherwise the document becomes a row.\<close>

definition r_insert :: "remote \<Rightarrow> row \<Rightarrow> pg_error option \<times> remote" where
  "r_insert R doc =
     (case fault R of
        Some e \<Rightarrow> (Some e, R)
      | None \<Rightarrow>
          (case insert_denied R of
             Some e \<Rightarrow> (Some e, R)
           | None \<Rightarrow>
               if list_ex (\<lambda>r. collides (unique_cols R) r doc) (table_rows R)
               then (Some duplicate_key, R)
               else (None, R\<lparr>table_rows := table_rows R @ [doc]\<rparr>)))"

text \<open>\<^verbatim>\<open>UPDATE ... SET\<close> the columns of \<open>doc\<close>: they replace the row's values, the row's
  other columns stay, and a column the row did not have is added.\<close>

definition set_columns :: "row \<Rightarrow> row \<Rightarrow> row" where
  "set_columns doc r =
     map (\<lambda>(c, v). (c, case map_of doc c of None \<Rightarrow> v | Some w \<Rightarrow> w)) r @
     filter (\<lambda>(c, w). map_of r c = None) doc"

text \<open>\<^verbatim>\<open>update(doc, {count: "exact"})\<close> under filters: every matching row is rewritten and
  counted; an update that would break a uniqueness constraint fails as a whole.\<close>

definition r_update :: "remote \<Rightarrow> row \<Rightarrow> filter list \<Rightarrow> (pg_error + nat) \<times> remote" where
  "r_update R doc fs =
     (case fault R of
        Some e \<Rightarrow> (Inl e, R)
      | None \<Rightarrow>
          let rows' = map (\<lambda>r. if matching fs r then set_columns doc r else r) (table_rows R)
          in if unique_ok (unique_cols R) rows'
             then (Inr (length (filter (matching fs) (table_rows R))), R\<lparr>table_rows := rows'\<rparr>)
             else (Inl duplicate_key, R))"

section \<open>The replication\<close>

text \<open>The fields of \<^verbatim>\<open>SupabaseReplication\<close> its methods read: the names the constructor
  settles, and the options that decide whether \<^verbatim>\<open>start\<close> subscribes to realtime
  changes.\<close>

record replication =
  primaryKey :: string
  lastModifiedFieldName :: string
  live :: bool
  pull_options :: "bool option option"
  updateHandler :: "(push_row \<Rightarrow> remote \<Rightarrow> (error + bool) \<times> remote) option"

text \<open>\<open>pull_options\<close> is \<^verbatim>\<open>options.pull\<close> as far as \<^verbatim>\<open>start\<close> reads it: absent, or present
  with \<^verbatim>\<open>realtimePostgresChanges\<close> undefined or a truth value. \<open>updateHandler\<close> is the
  optional \<^verbatim>\<open>options.push.updateHandler\<close>, which answers whether the update was applied.\<close>

definition POSTGRES_DUPLICATE_KEY_ERROR_CODE :: string where
  "POSTGRES_DUPLICATE_KEY_ERROR_CODE = ''23505''"

definition rowToRxDoc :: "row \<Rightarrow> row" where
  "rowToRxDoc r = r"

definition rowToCheckpoint :: "replication \<Rightarrow> row \<Rightarrow> checkpoint" where
  "rowToCheckpoint rep r =
     \<lparr>modified = row_get r (lastModifiedFieldName rep),
      primaryKeyValue = row_get r (primaryKey rep)\<rparr>"

subsection \<open>Pull\<close>

text \<open>The query \<^verbatim>\<open>pullHandler\<close> builds: the checkpoint filter only when the checkpoint
  is there and its \<^verbatim>\<open>modified\<close> is truthy, then the two \<^verbatim>\<open>order\<close> calls and the limit.\<close>

definition pull_query :: "replication \<Rightarrow> checkpoint option \<Rightarrow> nat \<Rightarrow> query" where
  "pull_query rep lastCheckpoint batchSize =
     (let query0 = q_select;
          query1 =
            (case lastCheckpoint of
               None \<Rightarrow> query0
             | Some c \<Rightarrow>
                 if truthy (modified c)
                 then
                   let lastModified = modified c;
                       lastPrimaryKey = primaryKeyValue c;
                       isNewer = FGt (lastModifiedFieldName rep) lastModified;
                       isSameAge = FEq (lastModifiedFieldName rep) lastModified
                   in q_or [isNewer, FAnd [isSameAge, FGt (primaryKey rep) lastPrimaryKey]] query0
                 else query0)
      in q_limit_to batchSize
           (q_order_by (primaryKey rep) (q_order_by (lastModifiedFieldName rep) query1)))"

definition pullHandler ::
  "replication \<Rightarrow> remote \<Rightarrow> checkpoint option \<Rightarrow> nat \<Rightarrow> error + change_event" where
  "pullHandler rep R lastCheckpoint batchSize =
     (case r_select R (pull_query rep lastCheckpoint batchSize) of
        Inl e \<Rightarrow> Inl (RemoteError e)
      | Inr data \<Rightarrow>
          if length data = 0
          then Inr \<lparr>checkpoint = lastCheckpoint, documents = []\<rparr>
          else Inr \<lparr>checkpoint = Some (rowToCheckpoint rep (data ! (length data - 1))),
                    documents = map rowToRxDoc data\<rparr>)"

subsection \<open>Push\<close>

definition fetchByPrimaryKey :: "replication \<Rightarrow> remote \<Rightarrow> jsval \<Rightarrow> error + row" where
  "fetchByPrimaryKey rep R keyValue =
     (case r_select R (q_limit_to 1 (q_eq (primaryKey rep) keyValue q_select)) of
        Inl e \<Rightarrow> Inl (RemoteError e)
      | Inr data \<Rightarrow>
          if length data \<noteq> 1 then Inl NoRowWithPrimaryKey else Inr (rowToRxDoc (data ! 0)))"

definition handleInsertion :: "replication \<Rightarrow> remote \<Rightarrow> row \<Rightarrow> (error + row list) \<times> remote" where
  "handleInsertion rep R doc =
     (case r_insert R doc of
        (None, R') \<Rightarrow> (Inr [], R')
      | (Some e, R') \<Rightarrow>
          if code e = POSTGRES_DUPLICATE_KEY_ERROR_CODE
          then (case fetchByPrimaryKey rep R' (row_get doc (primaryKey rep)) of
                  Inl err \<Rightarrow> (Inl err, R')
                | Inr d \<Rightarrow> (Inr [d], R'))
          else (Inl (RemoteError e), R'))"

text \<open>The \<^verbatim>\<open>forEach\<close> over \<^verbatim>\<open>Object.entries(row.assumedMasterState)\<close>: one comparison per
  field, added to the update's query; the first field of another type throws, and the
  query is dropped before it is awaited.\<close>

fun add_conditions :: "row \<Rightarrow> query \<Rightarrow> error + query" where
  "add_conditions [] query = Inr query"
| "add_conditions ((field, v) # rest) query =
     (let type = typeof v
      in if type = ''string'' \<or> type = ''number'' then add_conditions rest (q_eq field v query)
         else if type = ''boolean'' \<or> v = JNull then add_conditions rest (q_is field v query)
         else Inl (UnsupportedFieldType type))"

text \<open>The builder after \<^verbatim>\<open>from(table).update(doc, {count: "exact"})\<close>: no filter yet.\<close>

definition q_update :: query where
  "q_update = \<lparr>q_filters = [], q_order = [], q_limit = None\<rparr>"

definition defaultUpdateHandler ::
  "replication \<Rightarrow> push_row \<Rightarrow> remote \<Rightarrow> (error + bool) \<times> remote" where
  "defaultUpdateHandler rep row R =
     (case assumedMasterState row of
        None \<Rightarrow> (Inl TypeError, R)
      | Some assumed \<Rightarrow>
          (case add_conditions assumed q_update of
             Inl err \<Rightarrow> (Inl err, R)
           | Inr query \<Rightarrow>
               (case r_update R (newDocumentState row) (q_filters query) of
                  (Inl e, R') \<Rightarrow> (Inl (RemoteError e), R')
                | (Inr cnt, R') \<Rightarrow> (Inr (cnt = 1), R'))))"

definition handleUpdate :: "replication \<Rightarrow> remote \<Rightarrow> push_row \<Rightarrow> (error + row list) \<times> remote" where
  "handleUpdate rep R row =
     (let handler = (case updateHandler rep of Some h \<Rightarrow> h | None \<Rightarrow> defaultUpdateHandler rep)
      in case handler row R of
           (Inl err, R') \<Rightarrow> (Inl err, R')
         | (Inr applied, R') \<Rightarrow>
             if applied then (Inr [], R')
             else (case fetchByPrimaryKey rep R' (row_get (newDocumentState row) (primaryKey rep)) of
                     Inl err \<Rightarrow> (Inl err, R')
                   | Inr d \<Rightarrow> (Inr [d], R')))"

definition pushHandler :: "replication \<Rightarrow> remote \<Rightarrow> push_row list \<Rightarrow> (error + row list) \<times> remote" where
  "pushHandler rep R rows =
     (if length rows \<noteq> 1 then (Inl InvalidBatchSize, R)
      else let row = rows ! 0
           in case assumedMasterState row of
                Some assumed \<Rightarrow> handleUpdate rep R row
              | None \<Rightarrow> handleInsertion rep R (newDocumentState row))"

subsection \<open>Realtime relay\<close>

text \<open>A notification of the realtime channel: its \<^verbatim>\<open>eventType\<close> and \<^verbatim>\<open>new\<close>, the row
  after the change when the notification carries one.\<close>

record payload =
  eventType :: string
  new :: "row option"

text \<open>The callback \<^verbatim>\<open>watchPostgresChanges\<close> registers: the event it hands to
  \<^verbatim>\<open>realtimeChanges.next\<close>, or nothing when it returns early.\<close>

definition on_postgres_changes :: "replication \<Rightarrow> payload \<Rightarrow> change_event option" where
  "on_postgres_changes rep p =
     (if eventType p = ''DELETE'' then None
      else case new p of
             None \<Rightarrow> None
           | Some r \<Rightarrow> Some \<lparr>checkpoint = Some (rowToCheckpoint rep r),
                              documents = [rowToRxDoc r]\<rparr>)"

text \<open>
  The state of the relay. \<open>channels\<close> are the channels created on the client so far,
  each with whether it is subscribed; \<open>realtimeChannel\<close> is the field of that name, the
  channel of the last \<^verbatim>\<open>watchPostgresChanges\<close>; \<open>realtimeChanges\<close> is what has been
  published on the subject of that name, oldest first.
\<close>

record relay =
  channels :: "bool list"
  realtimeChannel :: "nat option"
  realtimeChanges :: "change_event list"

definition relay0 :: relay where
  "relay0 = \<lparr>channels = [], realtimeChannel = None, realtimeChanges = []\<rparr>"

definition watchPostgresChanges :: "relay \<Rightarrow> relay" where
  "watchPostgresChanges s =
     s\<lparr>channels := channels s @ [True], realtimeChannel := Some (length (channels s))\<rparr>"

definition start :: "replication \<Rightarrow> relay \<Rightarrow> relay" where
  "start rep s =
     (if live rep \<and>
         (case pull_options rep of
            None \<Rightarrow> False
          | Some realtimePostgresChanges \<Rightarrow>
              (case realtimePostgresChanges of None \<Rightarrow> True | Some b \<Rightarrow> b))
      then watchPostgresChanges s else s)"

text \<open>\<^verbatim>\<open>cancel\<close> resolves when both the replication's own cancel and the channel's
  \<^verbatim>\<open>unsubscribe\<close> have: on return the channel is no longer subscribed.\<close>

definition cancel :: "relay \<Rightarrow> relay" where
  "cancel s =
     (case realtimeChannel s of
        None \<Rightarrow> s
      | Some c \<Rightarrow> s\<lparr>channels := (channels s)[c := False]\<rparr>)"

text \<open>The remote announces a change: every subscribed channel runs its callback.\<close>

definition notify :: "replication \<Rightarrow> payload \<Rightarrow> relay \<Rightarrow> relay" where
  "notify rep p s =
     s\<lparr>realtimeChanges := realtimeChanges s @
          concat (map (\<lambda>subscribed.
                         if subscribed
                         then (case on_postgres_changes rep p of None \<Rightarrow> [] | Some ev \<Rightarrow> [ev])
                         else [])
                      (channels s))\<rparr>"

datatype action = Start | Cancel | Notify payload

fun step :: "replication \<Rightarrow> relay \<Rightarrow> action \<Rightarrow> relay" where
  "step rep s Start = start rep s"
| "step rep s Cancel = cancel s"
| "step rep s (Notify p) = notify rep p s"

definition run :: "replication \<Rightarrow> action list \<Rightarrow> relay \<Rightarrow> relay" where
  "run rep acts s = foldl (step rep) s acts"

section \<open>Reference definitions for the pull path\<close>

text \<open>
  The definitions of this section follow the words of the specification, not the code;
  the theorems below compare the code with them.

  The order \<open>(modified, primaryKey)\<close> of the rows, as one lexicographic sort key.
\<close>

definition order_key :: "replication \<Rightarrow> row \<Rightarrow> (nat \<times> int \<times> string) \<times> (nat \<times> int \<times> string)" where
  "order_key rep r =
     (sql_key (column r (lastModifiedFieldName rep)), sql_key (column r (primaryKey rep)))"

text \<open>The specification's filter: \<^verbatim>\<open>modified > C.modified OR (modified = C.modified AND
  primaryKey > C.primaryKeyValue)\<close>.\<close>

definition after_checkpoint :: "replication \<Rightarrow> checkpoint \<Rightarrow> row \<Rightarrow> bool" where
  "after_checkpoint rep c r =
     (sql_gt (column r (lastModifiedFieldName rep)) (modified c) \<or>
      (sql_eq (column r (lastModifiedFieldName rep)) (modified c) \<and>
       sql_gt (column r (primaryKey rep)) (primaryKeyValue c)))"

text \<open>One full pass in \<open>(modified, primaryKey)\<close> order over the rows after the
  checkpoint, or over all rows when there is no checkpoint.\<close>

definition spec_pass :: "replication \<Rightarrow> row list \<Rightarrow> checkpoint option \<Rightarrow> row list" where
  "spec_pass rep rows lastCheckpoint =
     sort_key (order_key rep)
       (case lastCheckpoint of
          None \<Rightarrow> rows
        | Some c \<Rightarrow> filter (after_checkpoint rep c) rows)"

text \<open>The specification's pull: the first \<open>n\<close> rows of that pass.\<close>

definition spec_pull :: "replication \<Rightarrow> row list \<Rightarrow> checkpoint option \<Rightarrow> nat \<Rightarrow> row list" where
  "spec_pull rep rows lastCheckpoint n = take n (spec_pass rep rows lastCheckpoint)"

text \<open>The checkpoint whose filter \<^verbatim>\<open>pullHandler\<close> applies: the one it is given, unless
  that one's \<^verbatim>\<open>modified\<close> is falsy.\<close>

definition applied_checkpoint :: "checkpoint option \<Rightarrow> checkpoint option" where
  "applied_checkpoint lastCheckpoint =
     (case lastCheckpoint of
        None \<Rightarrow> None
      | Some c \<Rightarrow> if truthy (modified c) then Some c else None)"

text \<open>
  The caller's loop: pull with a fixed batch size, feeding each returned checkpoint into
  the next call, until a pull returns no document; the result is all the documents in
  the order they came. The loop need not end, so it runs on fuel: \<open>None\<close> means the
  fuel ran out before an empty batch came.
\<close>

fun pull_until_empty ::
  "nat \<Rightarrow> replication \<Rightarrow> remote \<Rightarrow> checkpoint option \<Rightarrow> nat \<Rightarrow> (error + row list) option" where
  "pull_until_empty 0 rep R c n = None"
| "pull_until_empty (Suc fuel) rep R c n =
     (case pullHandler rep R c n of
        Inl e \<Rightarrow> Some (Inl e)
      | Inr ev \<Rightarrow>
          if documents ev = [] then Some (Inr [])
          else (case pull_until_empty fuel rep R (checkpoint ev) n of
                  None \<Rightarrow> None
                | Some (Inl e) \<Rightarrow> Some (Inl e)
                | Some (Inr rest) \<Rightarrow> Some (Inr (documents ev @ rest))))"




text \<open>
  A value the table can order and compare: a number, a string or a truth value. A table
  is well formed for a replication when every row's last-modified value is such a value,
  truthy, and one that JavaScript holds exactly; every row's primary key is such a value
  and one that JavaScript holds exactly; and no two rows share a primary key.
\<close>

fun comparable :: "jsval \<Rightarrow> bool" where
  "comparable (JNum n) = True"
| "comparable (JStr s) = True"
| "comparable (JBool b) = True"
| "comparable v = False"

definition well_formed :: "replication \<Rightarrow> row list \<Rightarrow> bool" where
  "well_formed rep rows =
     (list_all (\<lambda>r. truthy (column r (lastModifiedFieldName rep)) \<and>
                     comparable (column r (lastModifiedFieldName rep)) \<and>
                     js_exact (column r (lastModifiedFieldName rep)) \<and>
                     comparable (column r (primaryKey rep)) \<and>
                     js_exact (column r (primaryKey rep))) rows \<and>
      distinct (map (\<lambda>r. column r (primaryKey rep)) rows))"

section \<open>Example data\<close>

definition humans_replication :: replication where
  "humans_replication =
     \<lparr>primaryKey = ''id'', lastModifiedFieldName = ''_modified'', live = True,
      pull_options = Some None, updateHandler = None\<rparr>"

definition human :: "string \<Rightarrow> string \<Rightarrow> jsval \<Rightarrow> row" where
  "human i stamp age =
     [(''id'', JStr i), (''age'', age), (''_modified'', JStr stamp), (''_deleted'', JBool False)]"

definition humans :: "row list \<Rightarrow> remote" where
  "humans rows =
     \<lparr>table_rows = rows, unique_cols = [''id''], insert_denied = None, fault = None\<rparr>"

text \<open>Two rows written in the same instant, stored in the order 3, 2.\<close>

definition same_instant :: remote where
  "same_instant = humans [human ''3'' ''2023-05-01T10:00:00'' JNull,
                          human ''2'' ''2023-05-01T10:00:00'' JNull]"

text \<open>Two rows whose last-modified value is the empty string.\<close>

definition unstamped :: remote where
  "unstamped = humans [human ''1'' [] JNull, human ''2'' [] JNull]"

text \<open>One row, Alice, whose age is 5.\<close>

definition alice_5 :: remote where
  "alice_5 = humans [human ''1'' ''2023-05-01T10:00:00'' (JNum 5)]"

text \<open>The same table while the remote refuses every request.\<close>

definition alice_offline :: remote where
  "alice_offline = alice_5\<lparr>fault := Some \<lparr>code = ''PGRST301'', message = ''JWT expired''\<rparr>\<rparr>"

text \<open>The same table when its policy allows reading and updating, but not inserting.\<close>

definition alice_read_only :: remote where
  "alice_read_only =
     alice_5\<lparr>insert_denied :=
       Some \<lparr>code = ''42501'', message = ''new row violates row-level security policy''\<rparr>\<rparr>"

text \<open>A table of members in which the name is unique as well as the primary key, with
  one row.\<close>

definition member :: "string \<Rightarrow> string \<Rightarrow> row" where
  "member i name =
     [(''id'', JStr i), (''name'', JStr name), (''_modified'', JStr ''2023-05-01T10:00:00''),
      (''_deleted'', JBool False)]"

definition members :: remote where
  "members =
     \<lparr>table_rows = [member ''1'' ''alice''], unique_cols = [''id'', ''name''],
      insert_denied = None, fault = None\<rparr>"

text \<open>Two rows without an age, in a table that has no uniqueness constraint.\<close>

definition unconstrained :: remote where
  "unconstrained =
     \<lparr>table_rows = [human ''1'' ''2023-05-01T10:00:00'' JNull,
                    human ''2'' ''2023-05-01T10:00:00'' JNull],
      unique_cols = [], insert_denied = None, fault = None\<rparr>"

text \<open>Local writes: a new document, and updates of Alice's age under an assumed state.\<close>

definition insert_of :: "row \<Rightarrow> push_row" where
  "insert_of doc = \<lparr>newDocumentState = doc, assumedMasterState = None\<rparr>"

definition update_of :: "row \<Rightarrow> row \<Rightarrow> push_row" where
  "update_of doc assumed = \<lparr>newDocumentState = doc, assumedMasterState = Some assumed\<rparr>"

text \<open>Notifications of the realtime channel: Bob's row inserted, and a row physically
  deleted (the notification of a deletion carries an empty new row).\<close>

definition bob_inserted :: payload where
  "bob_inserted =
     \<lparr>eventType = ''INSERT'', new = Some (human ''2'' ''2023-05-02T08:00:00'' JNull)\<rparr>"

definition row_deleted :: payload where
  "row_deleted = \<lparr>eventType = ''DELETE'', new = Some []\<rparr>"

section \<open>Reference definitions for the push path\<close>

text \<open>
  These definitions, too, follow the words of the specification. A value the default
  comparator can express: a string, a number, a truth value or \<^verbatim>\<open>null\<close>.
\<close>

definition supported :: "jsval \<Rightarrow> bool" where
  "supported v =
     (typeof v = ''string'' \<or> typeof v = ''number'' \<or> typeof v = ''boolean'' \<or> v = JNull)"

text \<open>The comparison for one field of the assumed state: equality for a string or a
  number, \<^verbatim>\<open>is\<close> for a truth value or \<^verbatim>\<open>null\<close>.\<close>

definition comparison :: "string \<times> jsval \<Rightarrow> filter" where
  "comparison fv =
     (if typeof (snd fv) = ''string'' \<or> typeof (snd fv) = ''number''
      then FEq (fst fv) (snd fv) else FIs (fst fv) (snd fv))"

text \<open>A remote row matches the assumed state when every field of that state has exactly
  the row's value in the column of that name.\<close>

definition exact_match :: "row \<Rightarrow> row \<Rightarrow> bool" where
  "exact_match assumed r = list_all (\<lambda>fv. column r (fst fv) = snd fv) assumed"

text \<open>The table after the conditional update: the matching rows take the columns of the
  new document.\<close>

definition updated_rows :: "row \<Rightarrow> row \<Rightarrow> row list \<Rightarrow> row list" where
  "updated_rows doc assumed rows =
     map (\<lambda>r. if exact_match assumed r then set_columns doc r else r) rows"

text \<open>The remote rows with a given primary key value.\<close>

definition rows_with_key :: "replication \<Rightarrow> jsval \<Rightarrow> row list \<Rightarrow> row list" where
  "rows_with_key rep k rows = filter (\<lambda>r. sql_eq (column r (primaryKey rep)) k) rows"

section \<open>Runs and invariants of the relay\<close>

text \<open>
  An orderly run never calls \<^verbatim>\<open>start\<close> while the relay is started: every start is
  the first call or follows a cancel with no start in between. The flag says whether
  the relay is started before the run.
\<close>

fun orderly :: "bool \<Rightarrow> action list \<Rightarrow> bool" where
  "orderly started [] = True"
| "orderly started (Start # acts) = (\<not> started \<and> orderly True acts)"
| "orderly started (Cancel # acts) = orderly False acts"
| "orderly started (Notify p # acts) = orderly started acts"

text \<open>Every subscribed channel is the one the field \<open>realtimeChannel\<close> holds; and no
  channel is subscribed.\<close>

definition only_current :: "relay \<Rightarrow> bool" where
  "only_current s =
     (\<forall>i < length (channels s). channels s ! i \<longrightarrow> realtimeChannel s = Some i)"

definition none_subscribed :: "relay \<Rightarrow> bool" where
  "none_subscribed s = (\<forall>b \<in> set (channels s). \<not> b)"

section \<open>The pull query against the specification\<close>

text \<open>Sorting by the second column and then, stably, by the first is sorting by the pair.\<close>

lemma sorted_lex_pair:
  fixes f :: "'a \<Rightarrow> 'b::linorder" and g :: "'a \<Rightarrow> 'c::linorder"
  assumes "sorted (map f ys)"
    and "\<And>k. sorted (map g (filter (\<lambda>y. f y = k) ys))"
  shows "sorted (map (\<lambda>x. (f x, g x)) ys)"
  using assms
proof (induction ys)
  case Nil
  then show ?case by simp
next
  case (Cons y ys)
  have tail: "sorted (map (\<lambda>x. (f x, g x)) ys)"
  proof (rule Cons.IH)
    show "sorted (map f ys)" using Cons.prems(1) by simp
    show "sorted (map g (filter (\<lambda>y. f y = k) ys))" for k
      using Cons.prems(2) [of k] by (simp split: if_splits)
  qed
  have "(f y, g y) \<le> (f z, g z)" if z: "z \<in> set ys" for z
  proof (cases "f y = f z")
    case True
    have "sorted (map g (y # filter (\<lambda>x. f x = f y) ys))"
      using Cons.prems(2) [of "f y"] by simp
    moreover have "z \<in> set (filter (\<lambda>x. f x = f y) ys)"
      using z True by simp
    ultimately have "g y \<le> g z" by simp
    with True show ?thesis by simp
  next
    case False
    moreover have "f y \<le> f z" using Cons.prems(1) z by simp
    ultimately show ?thesis by (auto simp add: less_eq_prod_def)
  qed
  with tail show ?case by simp
qed

lemma sort_key_twice:
  fixes f :: "'a \<Rightarrow> 'b::linorder" and g :: "'a \<Rightarrow> 'c::linorder"
  shows "sort_key f (sort_key g xs) = sort_key (\<lambda>x. (f x, g x)) xs"
proof (rule sym, rule properties_for_sort_key)
  show "mset (sort_key f (sort_key g xs)) = mset xs" by simp
next
  fix k
  have "filter (\<lambda>x. (f k, g k) = (f x, g x)) (sort_key f (sort_key g xs))
      = filter (\<lambda>x. g x = g k) (filter (\<lambda>x. f x = f k) (sort_key f (sort_key g xs)))"
    by (auto intro: filter_cong)
  also have "\<dots> = filter (\<lambda>x. g x = g k) (filter (\<lambda>x. f x = f k) (sort_key g xs))"
    by (simp only: sort_key_stable)
  also have "\<dots> = filter (\<lambda>x. f x = f k) (filter (\<lambda>x. g x = g k) (sort_key g xs))"
    by (auto intro: filter_cong)
  also have "\<dots> = filter (\<lambda>x. f x = f k) (filter (\<lambda>x. g x = g k) xs)"
    by (simp only: sort_key_stable)
  also have "\<dots> = filter (\<lambda>x. (f k, g k) = (f x, g x)) xs"
    by (auto intro: filter_cong)
  finally show "filter (\<lambda>x. (f k, g k) = (f x, g x)) (sort_key f (sort_key g xs))
      = filter (\<lambda>x. (f k, g k) = (f x, g x)) xs" .
next
  show "sorted (map (\<lambda>x. (f x, g x)) (sort_key f (sort_key g xs)))"
  proof (rule sorted_lex_pair)
    show "sorted (map f (sort_key f (sort_key g xs)))" by simp
    show "sorted (map g (filter (\<lambda>y. f y = k) (sort_key f (sort_key g xs))))" for k
      by (simp only: sort_key_stable filter_sort [symmetric] sorted_filter sorted_sort_key)
  qed
qed


lemma apply_order_two:
  "apply_order [lastModifiedFieldName rep, primaryKey rep] rs = sort_key (order_key rep) rs"
proof -
  have "order_key rep = (\<lambda>r. (sql_key (column r (lastModifiedFieldName rep)),
                                sql_key (column r (primaryKey rep))))"
    by (simp add: fun_eq_iff order_key_def)
  then show ?thesis by (simp add: apply_order_def sort_key_twice)
qed

lemma matching_checkpoint_filter:
  "matching [FOr [FGt (lastModifiedFieldName rep) (modified c),
                  FAnd [FEq (lastModifiedFieldName rep) (modified c),
                        FGt (primaryKey rep) (primaryKeyValue c)]]] r
   = after_checkpoint rep c r"
  by (simp add: matching_def after_checkpoint_def)

lemma pull_query_order:
  "q_order (pull_query rep c n) = [lastModifiedFieldName rep, primaryKey rep]"
  by (simp add: pull_query_def q_select_def q_limit_to_def q_order_by_def q_or_def Let_def
      split: option.split)

lemma pull_query_limit: "q_limit (pull_query rep c n) = Some n"
  by (simp add: pull_query_def q_select_def q_limit_to_def q_order_by_def q_or_def Let_def
      split: option.split)

lemma pull_query_filters:
  "q_filters (pull_query rep c n) =
     (case applied_checkpoint c of
        None \<Rightarrow> []
      | Some a \<Rightarrow> [FOr [FGt (lastModifiedFieldName rep) (modified a),
                         FAnd [FEq (lastModifiedFieldName rep) (modified a),
                               FGt (primaryKey rep) (primaryKeyValue a)]]])"
  by (simp add: pull_query_def applied_checkpoint_def q_select_def q_limit_to_def q_order_by_def
      q_or_def Let_def split: option.split)

lemma run_select_pull_query:
  "run_select (pull_query rep c n) rows = spec_pull rep rows (applied_checkpoint c) n"
proof (cases "applied_checkpoint c")
  case None
  have "matching [] = (\<lambda>r. True)" by (simp add: matching_def fun_eq_iff)
  with None show ?thesis
    by (simp add: run_select_def pull_query_order pull_query_limit pull_query_filters
        apply_order_two spec_pull_def spec_pass_def)
next
  case (Some a)
  have "matching [FOr [FGt (lastModifiedFieldName rep) (modified a),
                  FAnd [FEq (lastModifiedFieldName rep) (modified a),
                        FGt (primaryKey rep) (primaryKeyValue a)]]] = after_checkpoint rep a"
    by (rule ext) (rule matching_checkpoint_filter)
  with Some show ?thesis
    by (simp add: run_select_def pull_query_order pull_query_limit pull_query_filters
        apply_order_two spec_pull_def spec_pass_def)
qed

lemma map_rowToRxDoc: "map rowToRxDoc rs = rs"
  by (induction rs) (simp_all add: rowToRxDoc_def)

lemma pullHandler_eq:
  assumes "fault R = None"
  shows "pullHandler rep R c n =
     (let docs = spec_pull rep (table_rows R) (applied_checkpoint c) n
      in Inr \<lparr>checkpoint = (if docs = [] then c else Some (rowToCheckpoint rep (last docs))),
              documents = docs\<rparr>)"
  using assms
  by (simp add: pullHandler_def r_select_def run_select_pull_query Let_def map_rowToRxDoc
      last_conv_nth)


lemmas pull_eval =
  pullHandler_def r_select_def pull_query_def q_select_def q_limit_to_def q_order_by_def q_or_def
  run_select_def apply_order_def matching_def column_def rowToCheckpoint_def row_get_def
  rowToRxDoc_def sql_gt_def sql_eq_def sql_is_def Let_def
  humans_replication_def humans_def human_def same_instant_def unstamped_def

lemmas spec_eval =
  spec_pull_def spec_pass_def order_key_def after_checkpoint_def column_def sql_gt_def sql_eq_def
  humans_replication_def humans_def human_def same_instant_def unstamped_def

section \<open>Pull\<close>

text \<open>
  C3. Whatever rows the query returns: with no row, the result is the caller's checkpoint
  as it was and an empty list of documents, not an error; with rows, the checkpoint is
  made of the last row's last-modified value and primary key, and the documents are the
  returned rows as they are, every field (the soft-delete flag among them) included.
\<close>

theorem pull_result:
  assumes "r_select R (pull_query rep lastCheckpoint batchSize) = Inr data"
  shows "pullHandler rep R lastCheckpoint batchSize =
     Inr \<lparr>checkpoint =
            (if data = [] then lastCheckpoint
             else Some \<lparr>modified = row_get (last data) (lastModifiedFieldName rep),
                        primaryKeyValue = row_get (last data) (primaryKey rep)\<rparr>),
          documents = data\<rparr>"
  using assms
  by (simp add: pullHandler_def map_rowToRxDoc rowToCheckpoint_def last_conv_nth)

text \<open>Witness for C3, at the two rows written in the same instant: a first pull of one
  row, and a pull after the last row, which returns the checkpoint it was given.\<close>

theorem pull_result_witness:
  "pullHandler humans_replication same_instant None 1 =
     Inr \<lparr>checkpoint = Some \<lparr>modified = JStr ''2023-05-01T10:00:00'', primaryKeyValue = JStr ''2''\<rparr>,
          documents = [human ''2'' ''2023-05-01T10:00:00'' JNull]\<rparr> \<and>
   pullHandler humans_replication same_instant
       (Some \<lparr>modified = JStr ''2023-05-01T10:00:00'', primaryKeyValue = JStr ''3''\<rparr>) 1 =
     Inr \<lparr>checkpoint = Some \<lparr>modified = JStr ''2023-05-01T10:00:00'', primaryKeyValue = JStr ''3''\<rparr>,
          documents = []\<rparr>"
proof -
  have a: "r_select same_instant (pull_query humans_replication None 1) =
      Inr [human ''2'' ''2023-05-01T10:00:00'' JNull]"
    by (simp add: pull_eval)
  have b: "r_select same_instant (pull_query humans_replication
      (Some \<lparr>modified = JStr ''2023-05-01T10:00:00'', primaryKeyValue = JStr ''3''\<rparr>) 1) = Inr []"
    by (simp add: pull_eval)
  show ?thesis
    using pull_result [OF a] pull_result [OF b]
    by (simp add: humans_replication_def human_def row_get_def)
qed

text \<open>
  C1, as the code has it. When the remote answers and the checkpoint is absent or has a
  truthy \<^verbatim>\<open>modified\<close>, the documents returned are the first \<open>batchSize\<close> rows, in
  ascending \<open>(modified, primaryKey)\<close> order, of the rows after the checkpoint (of all
  rows when there is no checkpoint).
\<close>

theorem pull_returns_next_slice:
  assumes "fault R = None"
    and "\<forall>c. lastCheckpoint = Some c \<longrightarrow> truthy (modified c)"
  shows "\<exists>ev. pullHandler rep R lastCheckpoint batchSize = Inr ev \<and>
              documents ev = spec_pull rep (table_rows R) lastCheckpoint batchSize"
proof -
  have "applied_checkpoint lastCheckpoint = lastCheckpoint"
    using assms(2) by (simp add: applied_checkpoint_def split: option.split)
  then show ?thesis
    using pullHandler_eq [OF assms(1), of rep lastCheckpoint batchSize] by (simp add: Let_def)
qed

text \<open>Witness for C1, at the two rows written in the same instant: a pull of one row
  after row 2.\<close>

theorem pull_returns_next_slice_witness:
  "\<exists>ev. pullHandler humans_replication same_instant
            (Some \<lparr>modified = JStr ''2023-05-01T10:00:00'', primaryKeyValue = JStr ''2''\<rparr>) 1 = Inr ev \<and>
        documents ev = [human ''3'' ''2023-05-01T10:00:00'' JNull]"
proof -
  have f: "fault same_instant = None" by (simp add: same_instant_def humans_def)
  have t: "\<forall>c. Some \<lparr>modified = JStr ''2023-05-01T10:00:00'', primaryKeyValue = JStr ''2''\<rparr> = Some c
      \<longrightarrow> truthy (modified c)" by auto
  have s: "spec_pull humans_replication (table_rows same_instant)
      (Some \<lparr>modified = JStr ''2023-05-01T10:00:00'', primaryKeyValue = JStr ''2''\<rparr>) 1 =
      [human ''3'' ''2023-05-01T10:00:00'' JNull]"
    by (simp add: spec_eval)
  show ?thesis
    using pull_returns_next_slice [OF f t, of humans_replication 1] s by simp
qed

text \<open>
  Counterexample to C1 as stated. It fails for a checkpoint that is present with a falsy
  \<^verbatim>\<open>modified\<close>: on the table of two rows stamped with the empty
  string, a pull from the checkpoint of row 1 returns row 1 again, which is not after
  that checkpoint.
\<close>

theorem pull_present_checkpoint_counterexample:
  "pullHandler humans_replication unstamped
       (Some \<lparr>modified = JStr [], primaryKeyValue = JStr ''1''\<rparr>) 5 =
     Inr \<lparr>checkpoint = Some \<lparr>modified = JStr [], primaryKeyValue = JStr ''2''\<rparr>,
          documents = [human ''1'' [] JNull, human ''2'' [] JNull]\<rparr> \<and>
   spec_pull humans_replication (table_rows unstamped)
       (Some \<lparr>modified = JStr [], primaryKeyValue = JStr ''1''\<rparr>) 5 = [human ''2'' [] JNull]"
  by (simp add: pull_eval spec_pull_def spec_pass_def order_key_def after_checkpoint_def)

text \<open>
  C10. A checkpoint that is present but whose \<^verbatim>\<open>modified\<close> is falsy adds no filter: the
  query is the one of a pull without checkpoint, and the documents are the first
  \<open>batchSize\<close> rows of the whole table in \<open>(modified, primaryKey)\<close> order.
\<close>

theorem falsy_checkpoint_pulls_from_start:
  assumes "\<not> truthy (modified c)"
  shows "pull_query rep (Some c) batchSize = pull_query rep None batchSize \<and>
         q_filters (pull_query rep (Some c) batchSize) = [] \<and>
         (fault R = None \<longrightarrow>
            (\<exists>ev. pullHandler rep R (Some c) batchSize = Inr ev \<and>
                   documents ev = spec_pull rep (table_rows R) None batchSize))"
proof -
  have a: "applied_checkpoint (Some c) = None"
    using assms by (simp add: applied_checkpoint_def)
  have "pull_query rep (Some c) batchSize = pull_query rep None batchSize"
    using assms by (simp add: pull_query_def)
  moreover have "q_filters (pull_query rep (Some c) batchSize) = []"
    by (simp add: pull_query_filters a)
  moreover have "\<exists>ev. pullHandler rep R (Some c) batchSize = Inr ev \<and>
                   documents ev = spec_pull rep (table_rows R) None batchSize"
    if "fault R = None"
    using pullHandler_eq [OF that, of rep "Some c" batchSize] a by (simp add: Let_def)
  ultimately show ?thesis by blast
qed

text \<open>Witness for C10, at the empty string (\<^verbatim>\<open>null\<close> and \<^verbatim>\<open>0\<close> are falsy as well):
  the pull starts from the first row of the table.\<close>

theorem falsy_checkpoint_pulls_from_start_witness:
  "\<not> truthy (JStr []) \<and> \<not> truthy JNull \<and> \<not> truthy (JNum 0) \<and>
   (\<exists>ev. pullHandler humans_replication same_instant
            (Some \<lparr>modified = JStr [], primaryKeyValue = JStr ''2''\<rparr>) 1 = Inr ev \<and>
         documents ev = [human ''2'' ''2023-05-01T10:00:00'' JNull])"
proof -
  have f: "fault same_instant = None" by (simp add: same_instant_def humans_def)
  have t: "\<not> truthy (modified \<lparr>modified = JStr [], primaryKeyValue = JStr ''2''\<rparr>)" by simp
  have s: "spec_pull humans_replication (table_rows same_instant) None 1 =
      [human ''2'' ''2023-05-01T10:00:00'' JNull]"
    by (simp add: spec_eval)
  show ?thesis
    using falsy_checkpoint_pulls_from_start [OF t, of humans_replication 1 same_instant] f s
    by simp
qed

section \<open>Pulling until the remote has no more rows\<close>

text \<open>On a well-formed table the filter of a row's checkpoint is the strict order of the
  sort key, and the keys of the rows are distinct.\<close>

lemma lex_less:
  fixes a c :: "'a::linorder" and b d :: "'b::linorder"
  shows "(a, b) < (c, d) \<longleftrightarrow> a < c \<or> (a = c \<and> b < d)"
  by auto

lemma sql_key_inj:
  "comparable a \<Longrightarrow> comparable b \<Longrightarrow> sql_key a = sql_key b \<Longrightarrow> a = b"
  by (cases a; cases b) (auto split: if_splits)

lemma comparable_not_null: "comparable a \<Longrightarrow> a \<noteq> JNull"
  by (cases a) auto

lemma row_get_column: "column r c \<noteq> JNull \<Longrightarrow> row_get r c = column r c"
  by (auto simp: row_get_def column_def split: option.splits)

lemma well_formed_row:
  assumes "well_formed rep rows" and "r \<in> set rows"
  shows "truthy (column r (lastModifiedFieldName rep))"
    and "comparable (column r (lastModifiedFieldName rep))"
    and "comparable (column r (primaryKey rep))"
  using assms by (auto simp: well_formed_def list_all_iff)

lemma rowToCheckpoint_column:
  assumes "well_formed rep rows" and "x \<in> set rows"
  shows "rowToCheckpoint rep x =
     \<lparr>modified = column x (lastModifiedFieldName rep), primaryKeyValue = column x (primaryKey rep)\<rparr>"
  using well_formed_row [OF assms]
  by (simp add: rowToCheckpoint_def row_get_column comparable_not_null)

lemma after_key_iff:
  assumes "comparable xm" and "comparable xp" and "comparable rm" and "comparable rp"
  shows "(sql_gt rm xm \<or> (sql_eq rm xm \<and> sql_gt rp xp))
     \<longleftrightarrow> (sql_key xm, sql_key xp) < (sql_key rm, sql_key rp)"
proof -
  have n: "xm \<noteq> JNull" "xp \<noteq> JNull" "rm \<noteq> JNull" "rp \<noteq> JNull"
    using assms by (simp_all add: comparable_not_null)
  have e: "sql_key xm = sql_key rm \<longleftrightarrow> rm = xm"
    using sql_key_inj [OF assms(1) assms(3)] by blast
  show ?thesis
    unfolding lex_less sql_gt_def sql_eq_def using n e by simp
qed

lemma after_row_checkpoint:
  assumes wf: "well_formed rep rows" and x: "x \<in> set rows" and r: "r \<in> set rows"
  shows "after_checkpoint rep (rowToCheckpoint rep x) r \<longleftrightarrow> order_key rep x < order_key rep r"
  using after_key_iff [OF well_formed_row(2,3) [OF wf x] well_formed_row(2,3) [OF wf r]]
  by (simp add: rowToCheckpoint_column [OF wf x] after_checkpoint_def order_key_def)

lemma after_upward_core:
  assumes c: "comparable xm" "comparable rm" "comparable rp"
    and a: "sql_gt xm cm \<or> (sql_eq xm cm \<and> sql_gt xp cp)"
    and l: "(sql_key xm, sql_key xp) < (sql_key rm, sql_key rp)"
  shows "sql_gt rm cm \<or> (sql_eq rm cm \<and> sql_gt rp cp)"
proof -
  have n: "rm \<noteq> JNull" "rp \<noteq> JNull"
    using c by (simp_all add: comparable_not_null)
  from l have "sql_key xm < sql_key rm \<or> (sql_key xm = sql_key rm \<and> sql_key xp < sql_key rp)"
    by (simp only: lex_less)
  then show ?thesis
  proof
    assume lt: "sql_key xm < sql_key rm"
    from a have "cm \<noteq> JNull \<and> sql_key cm \<le> sql_key xm"
      by (auto simp: sql_gt_def sql_eq_def)
    with lt n have "sql_gt rm cm" by (auto simp: sql_gt_def)
    then show ?thesis ..
  next
    assume eq: "sql_key xm = sql_key rm \<and> sql_key xp < sql_key rp"
    then have same: "rm = xm" using sql_key_inj [OF c(1) c(2)] by simp
    from a show ?thesis
    proof
      assume "sql_gt xm cm"
      with same show ?thesis by simp
    next
      assume h: "sql_eq xm cm \<and> sql_gt xp cp"
      then have "sql_gt rp cp" using eq n by (auto simp: sql_gt_def)
      with h same show ?thesis by simp
    qed
  qed
qed

lemma after_checkpoint_upward:
  assumes wf: "well_formed rep rows" and x: "x \<in> set rows" and r: "r \<in> set rows"
    and ax: "after_checkpoint rep c x" and lt: "order_key rep x < order_key rep r"
  shows "after_checkpoint rep c r"
  using after_upward_core [OF well_formed_row(2) [OF wf x] well_formed_row(2,3) [OF wf r],
      of "modified c" "column x (primaryKey rep)" "primaryKeyValue c"] ax lt
  by (simp add: after_checkpoint_def order_key_def)

lemma order_key_distinct:
  assumes "well_formed rep rows"
  shows "distinct (map (order_key rep) rows)"
proof -
  have d: "distinct (map (\<lambda>r. column r (primaryKey rep)) rows)"
    using assms by (simp add: well_formed_def)
  have "inj_on (order_key rep) (set rows)"
  proof (rule inj_onI)
    fix a b assume a: "a \<in> set rows" and b: "b \<in> set rows" and e: "order_key rep a = order_key rep b"
    have "column a (primaryKey rep) = column b (primaryKey rep)"
      using sql_key_inj [OF well_formed_row(3) [OF assms a] well_formed_row(3) [OF assms b]] e
      by (simp add: order_key_def)
    with d a b show "a = b" by (auto simp: distinct_map dest: inj_onD)
  qed
  with d show ?thesis by (simp add: distinct_map)
qed

lemma filter_after_last_take:
  fixes f :: "'a \<Rightarrow> 'b::linorder"
  assumes s: "sorted (map f L)" and d: "distinct (map f L)" and ne: "take n L \<noteq> []"
  shows "filter (\<lambda>r. f (last (take n L)) < f r) L = drop n L"
proof -
  let ?x = "last (take n L)"
  have split: "map f L = map f (take n L) @ map f (drop n L)"
    by (simp flip: map_append)
  have st: "sorted (map f (take n L))" and sd: "\<forall>a\<in>set (take n L). \<forall>b\<in>set (drop n L). f a \<le> f b"
    using s unfolding split sorted_append by auto
  have x: "?x \<in> set (take n L)" using ne by simp
  have low: "f a \<le> f ?x" if "a \<in> set (take n L)" for a
  proof -
    have "take n L = butlast (take n L) @ [?x]" using ne by simp
    then have "sorted (map f (butlast (take n L)) @ [f ?x])"
      using st by (metis list.simps(8,9) map_append)
    with that \<open>take n L = butlast (take n L) @ [?x]\<close> show ?thesis
      by (metis (no_types, lifting) Un_iff image_eqI in_set_butlastD insert_iff list.set(2)
          order_refl set_append set_map sorted_append empty_iff empty_set)
  qed
  have high: "f ?x < f b" if "b \<in> set (drop n L)" for b
  proof -
    have "f ?x \<le> f b" using sd x that by blast
    moreover have "f ?x \<noteq> f b"
      using d x that unfolding split distinct_append by auto
    ultimately show ?thesis by simp
  qed
  have "filter (\<lambda>r. f ?x < f r) (take n L) = []"
    using low by (auto simp: filter_empty_conv not_less)
  moreover have "filter (\<lambda>r. f ?x < f r) (drop n L) = drop n L"
    using high by (simp add: filter_id_conv)
  ultimately have "filter (\<lambda>r. f ?x < f r) (take n L @ drop n L) = drop n L"
    by (simp only: filter_append append_Nil)
  then show ?thesis by simp
qed


lemma spec_pass_subset: "set (spec_pass rep rows c) \<subseteq> set rows"
  by (auto simp: spec_pass_def split: option.splits)

lemma spec_pass_length: "length (spec_pass rep rows c) \<le> length rows"
  by (simp add: spec_pass_def split: option.split)

lemma spec_pass_sorted: "sorted (map (order_key rep) (spec_pass rep rows c))"
  by (simp add: spec_pass_def)

lemma spec_pass_distinct_keys:
  assumes "well_formed rep rows"
  shows "distinct (map (order_key rep) (spec_pass rep rows c))"
proof -
  have "distinct rows \<and> inj_on (order_key rep) (set rows)"
    using order_key_distinct [OF assms] by (simp add: distinct_map)
  then show ?thesis
    by (cases c) (auto simp: spec_pass_def distinct_map intro: inj_on_subset)
qed


text \<open>After a non-empty batch, the rows after the new checkpoint are the rest of the pass.\<close>

lemma spec_pass_rest:
  assumes wf: "well_formed rep rows" and ne: "take n (spec_pass rep rows c) \<noteq> []"
  shows "spec_pass rep rows (Some (rowToCheckpoint rep (last (take n (spec_pass rep rows c)))))
       = drop n (spec_pass rep rows c)"
proof -
  let ?L = "spec_pass rep rows c"
  let ?x = "last (take n ?L)"
  let ?P = "\<lambda>r. case c of None \<Rightarrow> True | Some a \<Rightarrow> after_checkpoint rep a r"
  have L: "?L = sort_key (order_key rep) (filter ?P rows)"
    by (cases c) (simp_all add: spec_pass_def)
  have "?x \<in> set (take n ?L)" using ne by simp
  then have xL: "?x \<in> set ?L" by (rule in_set_takeD)
  then have x: "?x \<in> set rows" using spec_pass_subset by blast
  have Px: "?P ?x" using xL by (cases c) (simp_all add: spec_pass_def)
  have F: "filter (after_checkpoint rep (rowToCheckpoint rep ?x)) rows
      = filter (\<lambda>r. order_key rep ?x < order_key rep r) (filter ?P rows)"
  proof -
    have "after_checkpoint rep (rowToCheckpoint rep ?x) r
        \<longleftrightarrow> ?P r \<and> order_key rep ?x < order_key rep r" if r: "r \<in> set rows" for r
    proof (cases c)
      case None
      then show ?thesis using after_row_checkpoint [OF wf x r] by simp
    next
      case (Some a)
      then show ?thesis
        using after_row_checkpoint [OF wf x r] after_checkpoint_upward [OF wf x r, of a] Px
        by auto
    qed
    then show ?thesis by (auto simp: filter_filter intro: filter_cong)
  qed
  have "spec_pass rep rows (Some (rowToCheckpoint rep ?x))
      = sort_key (order_key rep) (filter (after_checkpoint rep (rowToCheckpoint rep ?x)) rows)"
    by (simp add: spec_pass_def)
  also have "\<dots> = sort_key (order_key rep)
      (filter (\<lambda>r. order_key rep ?x < order_key rep r) (filter ?P rows))"
    by (simp only: F)
  also have "\<dots> = filter (\<lambda>r. order_key rep ?x < order_key rep r)
      (sort_key (order_key rep) (filter ?P rows))"
    by (simp only: filter_sort)
  also have "\<dots> = filter (\<lambda>r. order_key rep ?x < order_key rep r) ?L"
    by (simp only: L)
  also have "\<dots> = drop n ?L"
    by (rule filter_after_last_take [OF spec_pass_sorted spec_pass_distinct_keys [OF wf] ne])
  finally show ?thesis .
qed

lemma row_checkpoint_truthy:
  assumes "well_formed rep rows" and "x \<in> set rows"
  shows "applied_checkpoint (Some (rowToCheckpoint rep x)) = Some (rowToCheckpoint rep x)"
  using well_formed_row(1) [OF assms]
  by (simp add: applied_checkpoint_def rowToCheckpoint_column [OF assms])

lemma pull_until_empty_pass:
  assumes wf: "well_formed rep (table_rows R)" and f: "fault R = None" and n: "0 < n"
  shows "length (spec_pass rep (table_rows R) (applied_checkpoint c)) < fuel \<Longrightarrow>
         pull_until_empty fuel rep R c n = Some (Inr (spec_pass rep (table_rows R) (applied_checkpoint c)))"
proof (induction fuel arbitrary: c)
  case 0
  then show ?case by simp
next
  case (Suc fuel)
  let ?L = "spec_pass rep (table_rows R) (applied_checkpoint c)"
  have ph: "pullHandler rep R c n =
      Inr \<lparr>checkpoint = (if take n ?L = [] then c else Some (rowToCheckpoint rep (last (take n ?L)))),
           documents = take n ?L\<rparr>"
    using pullHandler_eq [OF f, of rep c n] by (simp add: Let_def spec_pull_def)
  show ?case
  proof (cases "take n ?L = []")
    case True
    then have "?L = []" using n by (cases ?L) auto
    with True ph show ?thesis by simp
  next
    case False
    let ?x = "last (take n ?L)"
    let ?c' = "Some (rowToCheckpoint rep ?x)"
    have "?x \<in> set (take n ?L)" using False by simp
    then have "?x \<in> set ?L" by (rule in_set_takeD)
    then have x: "?x \<in> set (table_rows R)" using spec_pass_subset by blast
    have ap: "applied_checkpoint ?c' = ?c'" by (rule row_checkpoint_truthy [OF wf x])
    have rest: "spec_pass rep (table_rows R) ?c' = drop n ?L"
      by (rule spec_pass_rest [OF wf False])
    have "length (drop n ?L) < fuel"
      using Suc.prems n False by (cases ?L) auto
    then have "pull_until_empty fuel rep R ?c' n = Some (Inr (drop n ?L))"
      using Suc.IH [of ?c'] ap rest by simp
    with False ph show ?thesis by simp
  qed
qed


lemmas table_eval =
  well_formed_def column_def humans_replication_def humans_def human_def same_instant_def
  unstamped_def

text \<open>
  C2, as the code has it. On a well-formed table (last-modified values that are truthy,
  comparable and held exactly by a JavaScript number when they are numbers; primary keys
  that are comparable, held exactly likewise and pairwise different), with a batch size
  of at least 1 and an initial checkpoint that is absent or has a truthy \<^verbatim>\<open>modified\<close>,
  the loop of pulls ends (any fuel above the number of rows is enough) and the documents
  it returned, in the order they came, are one pass in \<open>(modified, primaryKey)\<close> order
  over the rows after the initial checkpoint: every such row exactly once, no other row,
  whatever the batch boundaries.
\<close>

theorem pull_until_empty_is_one_pass:
  assumes "well_formed rep (table_rows R)" and "fault R = None" and "0 < batchSize"
    and "\<forall>c. initial = Some c \<longrightarrow> truthy (modified c)"
    and "length (table_rows R) < fuel"
  shows "\<exists>docs. pull_until_empty fuel rep R initial batchSize = Some (Inr docs) \<and>
           docs = spec_pass rep (table_rows R) initial \<and>
           sorted (map (order_key rep) docs) \<and>
           (\<forall>r. count_list docs r =
                  (if r \<in> set (table_rows R) \<and>
                      (case initial of None \<Rightarrow> True | Some c \<Rightarrow> after_checkpoint rep c r)
                   then 1 else 0))"
proof -
  let ?docs = "spec_pass rep (table_rows R) initial"
  have ap: "applied_checkpoint initial = initial"
    using assms(4) by (simp add: applied_checkpoint_def split: option.split)
  have "length ?docs < fuel"
    using spec_pass_length [of rep "table_rows R" initial] assms(5) by simp
  then have run: "pull_until_empty fuel rep R initial batchSize = Some (Inr ?docs)"
    using pull_until_empty_pass [OF assms(1,2,3), of initial fuel] ap by simp
  have "distinct (map (order_key rep) ?docs)"
    by (rule spec_pass_distinct_keys [OF assms(1)])
  then have d: "distinct ?docs" by (simp add: distinct_map)
  have m: "r \<in> set ?docs \<longleftrightarrow> r \<in> set (table_rows R) \<and>
      (case initial of None \<Rightarrow> True | Some c \<Rightarrow> after_checkpoint rep c r)" for r
    by (cases initial) (auto simp: spec_pass_def)
  have "count_list ?docs r = (if r \<in> set ?docs then 1 else 0)" for r
    using d by (metis count_mset distinct_count_atmost_1)
  with m have "\<forall>r. count_list ?docs r =
      (if r \<in> set (table_rows R) \<and>
          (case initial of None \<Rightarrow> True | Some c \<Rightarrow> after_checkpoint rep c r)
       then 1 else 0)" by simp
  with run spec_pass_sorted [of rep "table_rows R" initial] show ?thesis by blast
qed

text \<open>Witness for C2, at the two rows written in the same instant with primary keys 2 and
  3, pulled one row at a time from no checkpoint: row 2, then row 3.\<close>

theorem pull_until_empty_is_one_pass_witness:
  "pull_until_empty 3 humans_replication same_instant None 1 =
     Some (Inr [human ''2'' ''2023-05-01T10:00:00'' JNull, human ''3'' ''2023-05-01T10:00:00'' JNull]) \<and>
   pullHandler humans_replication same_instant None 1 =
     Inr \<lparr>checkpoint = Some \<lparr>modified = JStr ''2023-05-01T10:00:00'', primaryKeyValue = JStr ''2''\<rparr>,
          documents = [human ''2'' ''2023-05-01T10:00:00'' JNull]\<rparr> \<and>
   pullHandler humans_replication same_instant
       (Some \<lparr>modified = JStr ''2023-05-01T10:00:00'', primaryKeyValue = JStr ''2''\<rparr>) 1 =
     Inr \<lparr>checkpoint = Some \<lparr>modified = JStr ''2023-05-01T10:00:00'', primaryKeyValue = JStr ''3''\<rparr>,
          documents = [human ''3'' ''2023-05-01T10:00:00'' JNull]\<rparr>"
proof -
  have w: "well_formed humans_replication (table_rows same_instant)"
    by (simp add: table_eval)
  have f: "fault same_instant = None" by (simp add: same_instant_def humans_def)
  have n: "(0::nat) < 1" by simp
  have i: "\<forall>c. (None::checkpoint option) = Some c \<longrightarrow> truthy (modified c)" by simp
  have l: "length (table_rows same_instant) < 3" by (simp add: same_instant_def humans_def)
  have s: "spec_pass humans_replication (table_rows same_instant) None =
      [human ''2'' ''2023-05-01T10:00:00'' JNull, human ''3'' ''2023-05-01T10:00:00'' JNull]"
    by (simp add: spec_eval)
  have a: "pullHandler humans_replication same_instant None 1 =
     Inr \<lparr>checkpoint = Some \<lparr>modified = JStr ''2023-05-01T10:00:00'', primaryKeyValue = JStr ''2''\<rparr>,
          documents = [human ''2'' ''2023-05-01T10:00:00'' JNull]\<rparr>"
    by (simp add: pull_eval)
  have b: "pullHandler humans_replication same_instant
       (Some \<lparr>modified = JStr ''2023-05-01T10:00:00'', primaryKeyValue = JStr ''2''\<rparr>) 1 =
     Inr \<lparr>checkpoint = Some \<lparr>modified = JStr ''2023-05-01T10:00:00'', primaryKeyValue = JStr ''3''\<rparr>,
          documents = [human ''3'' ''2023-05-01T10:00:00'' JNull]\<rparr>"
    by (simp add: pull_eval)
  show ?thesis
    using pull_until_empty_is_one_pass [OF w f n i l] s a b by simp
qed

text \<open>
  Counterexample to C2 as stated. It fails on a table whose rows are stamped with the
  empty string: the first pull of one row returns row 1 and a checkpoint with a falsy
  \<^verbatim>\<open>modified\<close>, the next pull from that checkpoint returns row 1
  again with the same checkpoint, and the loop never reaches an empty batch. And with a
  batch size of 0 the first pull is empty, so the loop ends at once and yields no row of
  a table that has two.
\<close>

theorem pull_until_empty_counterexample:
  "pullHandler humans_replication unstamped None 1 =
     Inr \<lparr>checkpoint = Some \<lparr>modified = JStr [], primaryKeyValue = JStr ''1''\<rparr>,
          documents = [human ''1'' [] JNull]\<rparr> \<and>
   pullHandler humans_replication unstamped
       (Some \<lparr>modified = JStr [], primaryKeyValue = JStr ''1''\<rparr>) 1 =
     Inr \<lparr>checkpoint = Some \<lparr>modified = JStr [], primaryKeyValue = JStr ''1''\<rparr>,
          documents = [human ''1'' [] JNull]\<rparr> \<and>
   pull_until_empty 8 humans_replication unstamped None 1 = None \<and>
   pull_until_empty 1 humans_replication same_instant None 0 = Some (Inr [])"
proof -
  have a: "pullHandler humans_replication unstamped None 1 =
     Inr \<lparr>checkpoint = Some \<lparr>modified = JStr [], primaryKeyValue = JStr ''1''\<rparr>,
          documents = [human ''1'' [] JNull]\<rparr>"
    by (simp add: pull_eval)
  have b: "pullHandler humans_replication unstamped
       (Some \<lparr>modified = JStr [], primaryKeyValue = JStr ''1''\<rparr>) 1 =
     Inr \<lparr>checkpoint = Some \<lparr>modified = JStr [], primaryKeyValue = JStr ''1''\<rparr>,
          documents = [human ''1'' [] JNull]\<rparr>"
    by (simp add: pull_eval)
  have stuck: "pull_until_empty k humans_replication unstamped
       (Some \<lparr>modified = JStr [], primaryKeyValue = JStr ''1''\<rparr>) 1 = None" for k
    using b by (induction k) simp_all
  have loop: "pull_until_empty k humans_replication unstamped None 1 = None" for k
    using a stuck by (cases k) simp_all
  have zero: "pull_until_empty 1 humans_replication same_instant None 0 = Some (Inr [])"
    by (simp add: pull_eval)
  from a b loop zero show ?thesis by simp
qed

section \<open>The checkpoints of successive pulls\<close>









section \<open>Push\<close>

text \<open>\<^verbatim>\<open>fetchByPrimaryKey\<close> returns the first row with the key, if there is one.\<close>

lemma apply_order_none: "apply_order [] rs = rs"
  by (simp add: apply_order_def)

lemma fetchByPrimaryKey_eq:
  assumes "fault R = None"
  shows "fetchByPrimaryKey rep R k =
     (case rows_with_key rep k (table_rows R) of
        [] \<Rightarrow> Inl NoRowWithPrimaryKey
      | r # rest \<Rightarrow> Inr r)"
proof -
  have m: "matching [FEq (primaryKey rep) k] = (\<lambda>r. sql_eq (column r (primaryKey rep)) k)"
    by (simp add: matching_def fun_eq_iff)
  have "r_select R (q_limit_to 1 (q_eq (primaryKey rep) k q_select)) =
      Inr (take 1 (rows_with_key rep k (table_rows R)))"
    using assms
    by (simp add: r_select_def run_select_def q_limit_to_def q_eq_def q_select_def
        apply_order_none m rows_with_key_def)
  then show ?thesis
    by (cases "rows_with_key rep k (table_rows R)") (simp_all add: fetchByPrimaryKey_def rowToRxDoc_def)
qed

lemma fetchByPrimaryKey_fault:
  "fault R = Some e \<Longrightarrow> fetchByPrimaryKey rep R k = Inl (RemoteError e)"
  by (simp add: fetchByPrimaryKey_def r_select_def)

lemma rows_with_key_member:
  assumes "rows_with_key rep k rows = r # rest"
  shows "r \<in> set rows \<and> sql_eq (column r (primaryKey rep)) k"
proof -
  have "r \<in> set (rows_with_key rep k rows)" by (simp add: assms)
  then show ?thesis by (simp add: rows_with_key_def)
qed

lemma rows_with_key_nonempty:
  "r \<in> set rows \<Longrightarrow> sql_eq (column r (primaryKey rep)) k \<Longrightarrow> rows_with_key rep k rows \<noteq> []"
  by (auto simp: rows_with_key_def filter_empty_conv)

lemmas push_eval =
  pushHandler_def handleInsertion_def handleUpdate_def defaultUpdateHandler_def
  fetchByPrimaryKey_def r_insert_def r_update_def r_select_def run_select_def apply_order_def
  matching_def collides_def set_columns_def q_update_def q_select_def q_eq_def q_is_def
  q_limit_to_def column_def row_get_def rowToRxDoc_def sql_eq_def sql_is_def
  duplicate_key_def POSTGRES_DUPLICATE_KEY_ERROR_CODE_def Let_def
  insert_of_def update_of_def alice_5_def alice_offline_def unconstrained_def
  humans_replication_def humans_def human_def

lemma r_insert_failure_keeps: "r_insert R doc = (Some e, R') \<Longrightarrow> R' = R"
  by (auto simp: r_insert_def split: option.splits if_splits)

text \<open>
  C5, as the code has it. A push of one row without assumed state inserts the document.
  When the insert succeeds the result is the empty list. When it fails because a remote
  row already has the document's primary key, which is under a uniqueness constraint, the
  result is that remote row as a one-element list, not an error, and the table is as it
  was. In general, when the insert fails with the duplicate-key code, whatever constraint
  raised it, the row is fetched by the document's primary key: the first row found is
  the one-element result, and when no remote row has that key (another uniqueness
  constraint raised the error) the push fails with \<^verbatim>\<open>No row with given primary key\<close>,
  not with the insert's error. When the insert fails with an error of any other code,
  that error is passed on as it is.
\<close>

theorem insertion_outcomes:
  assumes "assumedMasterState row = None"
  shows "(fault R = None \<and> insert_denied R = None \<and>
          \<not> list_ex (\<lambda>r. collides (unique_cols R) r (newDocumentState row)) (table_rows R) \<longrightarrow>
            pushHandler rep R [row] =
              (Inr [], R\<lparr>table_rows := table_rows R @ [newDocumentState row]\<rparr>)) \<and>
         (fault R = None \<and> insert_denied R = None \<and> primaryKey rep \<in> set (unique_cols R) \<and>
          (\<exists>r\<in>set (table_rows R).
             sql_eq (column r (primaryKey rep)) (column (newDocumentState row) (primaryKey rep))) \<longrightarrow>
            (\<exists>r\<in>set (table_rows R).
               sql_eq (column r (primaryKey rep)) (column (newDocumentState row) (primaryKey rep)) \<and>
               pushHandler rep R [row] = (Inr [r], R))) \<and>
         (\<forall>e R' r rest. r_insert R (newDocumentState row) = (Some e, R') \<and>
                 code e = POSTGRES_DUPLICATE_KEY_ERROR_CODE \<and> fault R = None \<and>
                 rows_with_key rep (row_get (newDocumentState row) (primaryKey rep)) (table_rows R) =
                   r # rest \<longrightarrow>
            pushHandler rep R [row] = (Inr [r], R)) \<and>
         (\<forall>e R'. r_insert R (newDocumentState row) = (Some e, R') \<and>
                 code e = POSTGRES_DUPLICATE_KEY_ERROR_CODE \<and> fault R = None \<and>
                 rows_with_key rep (row_get (newDocumentState row) (primaryKey rep)) (table_rows R) = [] \<longrightarrow>
            pushHandler rep R [row] = (Inl NoRowWithPrimaryKey, R)) \<and>
         (\<forall>e R'. r_insert R (newDocumentState row) = (Some e, R') \<and>
                 code e \<noteq> POSTGRES_DUPLICATE_KEY_ERROR_CODE \<longrightarrow>
            pushHandler rep R [row] = (Inl (RemoteError e), R))"
proof (intro conjI impI allI)
  let ?doc = "newDocumentState row"
  have ph: "pushHandler rep R [row] = handleInsertion rep R ?doc"
    using assms by (simp add: pushHandler_def)
  {
    assume "fault R = None \<and> insert_denied R = None \<and>
      \<not> list_ex (\<lambda>r. collides (unique_cols R) r ?doc) (table_rows R)"
    then show "pushHandler rep R [row] = (Inr [], R\<lparr>table_rows := table_rows R @ [?doc]\<rparr>)"
      by (simp add: ph handleInsertion_def r_insert_def)
  }
  {
    assume h: "fault R = None \<and> insert_denied R = None \<and> primaryKey rep \<in> set (unique_cols R) \<and>
      (\<exists>r\<in>set (table_rows R). sql_eq (column r (primaryKey rep)) (column ?doc (primaryKey rep)))"
    then obtain r0 where r0: "r0 \<in> set (table_rows R)"
      and eq0: "sql_eq (column r0 (primaryKey rep)) (column ?doc (primaryKey rep))" by blast
    from h r0 eq0 have "list_ex (\<lambda>r. collides (unique_cols R) r ?doc) (table_rows R)"
      by (auto simp: list_ex_iff collides_def)
    with h have ins: "r_insert R ?doc = (Some duplicate_key, R)"
      by (simp add: r_insert_def)
    from eq0 have "column ?doc (primaryKey rep) \<noteq> JNull" by (simp add: sql_eq_def)
    then have k: "row_get ?doc (primaryKey rep) = column ?doc (primaryKey rep)"
      by (rule row_get_column)
    from rows_with_key_nonempty [OF r0 eq0] obtain r rest where
      rk: "rows_with_key rep (column ?doc (primaryKey rep)) (table_rows R) = r # rest"
      by (cases "rows_with_key rep (column ?doc (primaryKey rep)) (table_rows R)") auto
    from h have "fault R = None" by simp
    from fetchByPrimaryKey_eq [OF this, of rep "column ?doc (primaryKey rep)"] rk
    have "fetchByPrimaryKey rep R (column ?doc (primaryKey rep)) = Inr r" by simp
    with ins k have "pushHandler rep R [row] = (Inr [r], R)"
      by (simp add: ph handleInsertion_def duplicate_key_def POSTGRES_DUPLICATE_KEY_ERROR_CODE_def)
    with rows_with_key_member [OF rk]
    show "\<exists>r\<in>set (table_rows R).
        sql_eq (column r (primaryKey rep)) (column ?doc (primaryKey rep)) \<and>
        pushHandler rep R [row] = (Inr [r], R)" by blast
  }
  {
    fix e R' r rest
    assume h: "r_insert R ?doc = (Some e, R') \<and> code e = POSTGRES_DUPLICATE_KEY_ERROR_CODE \<and>
      fault R = None \<and> rows_with_key rep (row_get ?doc (primaryKey rep)) (table_rows R) = r # rest"
    then have same: "R' = R" by (auto dest: r_insert_failure_keeps)
    from h have "fetchByPrimaryKey rep R (row_get ?doc (primaryKey rep)) = Inr r"
      by (simp add: fetchByPrimaryKey_eq)
    with h same show "pushHandler rep R [row] = (Inr [r], R)"
      by (simp add: ph handleInsertion_def)
  }
  {
    fix e R'
    assume h: "r_insert R ?doc = (Some e, R') \<and> code e = POSTGRES_DUPLICATE_KEY_ERROR_CODE \<and>
      fault R = None \<and> rows_with_key rep (row_get ?doc (primaryKey rep)) (table_rows R) = []"
    then have same: "R' = R" by (auto dest: r_insert_failure_keeps)
    from h have "fetchByPrimaryKey rep R (row_get ?doc (primaryKey rep)) = Inl NoRowWithPrimaryKey"
      by (simp add: fetchByPrimaryKey_eq)
    with h same show "pushHandler rep R [row] = (Inl NoRowWithPrimaryKey, R)"
      by (simp add: ph handleInsertion_def)
  }
  {
    fix e R'
    assume h: "r_insert R ?doc = (Some e, R') \<and> code e \<noteq> POSTGRES_DUPLICATE_KEY_ERROR_CODE"
    then have "R' = R" by (auto dest: r_insert_failure_keeps)
    with h show "pushHandler rep R [row] = (Inl (RemoteError e), R)"
      by (simp add: ph handleInsertion_def)
  }
qed

text \<open>Witness for C5: on the table with Alice, a new key and Alice's key again; on the
  table of members, Alice's key with another name, and a new key with a name that is
  taken; and a remote that refuses every
  request, and one that refuses inserts only, where a fetch would have found Alice.\<close>

theorem insertion_outcomes_witness:
  "pushHandler humans_replication alice_5 [insert_of (human ''2'' ''2023-05-02T08:00:00'' JNull)] =
     (Inr [], humans [human ''1'' ''2023-05-01T10:00:00'' (JNum 5),
                      human ''2'' ''2023-05-02T08:00:00'' JNull]) \<and>
   pushHandler humans_replication alice_5 [insert_of (human ''1'' ''2023-05-02T08:00:00'' (JNum 7))] =
     (Inr [human ''1'' ''2023-05-01T10:00:00'' (JNum 5)], alice_5) \<and>
   pushHandler humans_replication members [insert_of (member ''1'' ''bob'')] =
     (Inr [member ''1'' ''alice''], members) \<and>
   pushHandler humans_replication members [insert_of (member ''2'' ''alice'')] =
     (Inl NoRowWithPrimaryKey, members) \<and>
   pushHandler humans_replication alice_offline
       [insert_of (human ''2'' ''2023-05-02T08:00:00'' JNull)] =
     (Inl (RemoteError \<lparr>code = ''PGRST301'', message = ''JWT expired''\<rparr>), alice_offline) \<and>
   pushHandler humans_replication alice_read_only
       [insert_of (human ''1'' ''2023-05-02T08:00:00'' (JNum 7))] =
     (Inl (RemoteError \<lparr>code = ''42501'',
                        message = ''new row violates row-level security policy''\<rparr>),
      alice_read_only)"
proof -
  have n: "assumedMasterState (insert_of d) = None" for d by (simp add: insert_of_def)
  have a: "fault alice_5 = None \<and> insert_denied alice_5 = None \<and>
      \<not> list_ex (\<lambda>r. collides (unique_cols alice_5) r
             (newDocumentState (insert_of (human ''2'' ''2023-05-02T08:00:00'' JNull))))
           (table_rows alice_5)"
    by (simp add: alice_5_def humans_def human_def insert_of_def collides_def column_def sql_eq_def)
  have b: "fault alice_5 = None \<and> insert_denied alice_5 = None \<and>
      primaryKey humans_replication \<in> set (unique_cols alice_5) \<and>
      (\<exists>r\<in>set (table_rows alice_5).
         sql_eq (column r (primaryKey humans_replication))
           (column (newDocumentState (insert_of (human ''1'' ''2023-05-02T08:00:00'' (JNum 7))))
              (primaryKey humans_replication)))"
    by (simp add: alice_5_def humans_def human_def insert_of_def humans_replication_def column_def
        sql_eq_def)
  have f: "r_insert members (newDocumentState (insert_of (member ''1'' ''bob''))) =
        (Some duplicate_key, members) \<and>
      code duplicate_key = POSTGRES_DUPLICATE_KEY_ERROR_CODE \<and> fault members = None \<and>
      rows_with_key humans_replication
        (row_get (newDocumentState (insert_of (member ''1'' ''bob''))) (primaryKey humans_replication))
        (table_rows members) = member ''1'' ''alice'' # []"
    by (simp add: r_insert_def members_def member_def insert_of_def collides_def column_def
        sql_eq_def duplicate_key_def POSTGRES_DUPLICATE_KEY_ERROR_CODE_def rows_with_key_def
        row_get_def humans_replication_def)
  have c: "r_insert members (newDocumentState (insert_of (member ''2'' ''alice''))) =
        (Some duplicate_key, members) \<and>
      code duplicate_key = POSTGRES_DUPLICATE_KEY_ERROR_CODE \<and> fault members = None \<and>
      rows_with_key humans_replication
        (row_get (newDocumentState (insert_of (member ''2'' ''alice''))) (primaryKey humans_replication))
        (table_rows members) = []"
    by (simp add: r_insert_def members_def member_def insert_of_def collides_def column_def
        sql_eq_def duplicate_key_def POSTGRES_DUPLICATE_KEY_ERROR_CODE_def rows_with_key_def
        row_get_def humans_replication_def)
  have d: "r_insert alice_offline (newDocumentState (insert_of (human ''2'' ''2023-05-02T08:00:00'' JNull))) =
        (Some \<lparr>code = ''PGRST301'', message = ''JWT expired''\<rparr>, alice_offline) \<and>
      code \<lparr>code = ''PGRST301'', message = ''JWT expired''\<rparr> \<noteq> POSTGRES_DUPLICATE_KEY_ERROR_CODE"
    by (simp add: r_insert_def alice_offline_def POSTGRES_DUPLICATE_KEY_ERROR_CODE_def)
  have e: "r_insert alice_read_only
        (newDocumentState (insert_of (human ''1'' ''2023-05-02T08:00:00'' (JNum 7)))) =
        (Some \<lparr>code = ''42501'', message = ''new row violates row-level security policy''\<rparr>,
         alice_read_only) \<and>
      code \<lparr>code = ''42501'', message = ''new row violates row-level security policy''\<rparr>
        \<noteq> POSTGRES_DUPLICATE_KEY_ERROR_CODE"
    by (simp add: r_insert_def alice_read_only_def alice_5_def humans_def
        POSTGRES_DUPLICATE_KEY_ERROR_CODE_def)
  have t: "alice_5\<lparr>table_rows := table_rows alice_5 @
        [newDocumentState (insert_of (human ''2'' ''2023-05-02T08:00:00'' JNull))]\<rparr> =
      humans [human ''1'' ''2023-05-01T10:00:00'' (JNum 5), human ''2'' ''2023-05-02T08:00:00'' JNull]"
    by (simp add: alice_5_def humans_def insert_of_def)
  have s: "set (table_rows alice_5) = {human ''1'' ''2023-05-01T10:00:00'' (JNum 5)}"
    by (simp add: alice_5_def humans_def)
  from insertion_outcomes [OF n, of alice_5 _ humans_replication] a t
  have 1: "pushHandler humans_replication alice_5
        [insert_of (human ''2'' ''2023-05-02T08:00:00'' JNull)] =
      (Inr [], humans [human ''1'' ''2023-05-01T10:00:00'' (JNum 5),
                       human ''2'' ''2023-05-02T08:00:00'' JNull])"
    by simp
  from insertion_outcomes [OF n, of alice_5 _ humans_replication] b s
  have 2: "pushHandler humans_replication alice_5
        [insert_of (human ''1'' ''2023-05-02T08:00:00'' (JNum 7))] =
      (Inr [human ''1'' ''2023-05-01T10:00:00'' (JNum 5)], alice_5)"
    by simp
  from insertion_outcomes [OF n, of members _ humans_replication] c
  have 3: "pushHandler humans_replication members [insert_of (member ''2'' ''alice'')] =
      (Inl NoRowWithPrimaryKey, members)"
    by blast
  from insertion_outcomes [OF n, of alice_offline _ humans_replication] d
  have 4: "pushHandler humans_replication alice_offline
        [insert_of (human ''2'' ''2023-05-02T08:00:00'' JNull)] =
      (Inl (RemoteError \<lparr>code = ''PGRST301'', message = ''JWT expired''\<rparr>), alice_offline)"
    by blast
  from insertion_outcomes [OF n, of alice_read_only _ humans_replication] e
  have 5: "pushHandler humans_replication alice_read_only
       [insert_of (human ''1'' ''2023-05-02T08:00:00'' (JNum 7))] =
     (Inl (RemoteError \<lparr>code = ''42501'',
                        message = ''new row violates row-level security policy''\<rparr>),
      alice_read_only)"
    by blast
  from insertion_outcomes [OF n, of members _ humans_replication] f
  have 6: "pushHandler humans_replication members [insert_of (member ''1'' ''bob'')] =
      (Inr [member ''1'' ''alice''], members)"
    by blast
  from 1 2 3 4 5 6 show ?thesis by blast
qed

text \<open>
  Counterexample to C5 as stated. On the table of members the name is unique as well:
  inserting a member with a new key and Alice's name fails with the duplicate-key error
  though no row has the new key; that insert error is not passed on, the push fails with
  \<^verbatim>\<open>No row with given primary key\<close> instead.
\<close>

theorem insertion_other_constraint_counterexample:
  "rows_with_key humans_replication (JStr ''2'') (table_rows members) = [] \<and>
   r_insert members (member ''2'' ''alice'') = (Some duplicate_key, members) \<and>
   pushHandler humans_replication members [insert_of (member ''2'' ''alice'')] =
     (Inl NoRowWithPrimaryKey, members) \<and>
   pushHandler humans_replication members [insert_of (member ''2'' ''alice'')] \<noteq>
     (Inl (RemoteError duplicate_key), members)"
  by (simp add: push_eval members_def member_def rows_with_key_def)

text \<open>The default update handler: the comparisons it builds and what they select.\<close>

lemma add_conditions_eq:
  "add_conditions assumed query =
     (case find (\<lambda>fv. \<not> supported (snd fv)) assumed of
        None \<Rightarrow> Inr (query\<lparr>q_filters := q_filters query @ map comparison assumed\<rparr>)
      | Some fv \<Rightarrow> Inl (UnsupportedFieldType (typeof (snd fv))))"
proof (induction assumed arbitrary: query)
  case Nil
  then show ?case by simp
next
  case (Cons fv assumed)
  obtain f v where fv: "fv = (f, v)" by (cases fv)
  show ?case
    unfolding fv
    by (cases v) (simp_all add: Cons.IH supported_def comparison_def q_eq_def q_is_def Let_def
        split: option.split)
qed

lemma holds_comparison:
  "supported (snd fv) \<Longrightarrow> filter_holds r (comparison fv) \<longleftrightarrow> column r (fst fv) = snd fv"
  by (cases "snd fv") (auto simp: supported_def comparison_def sql_eq_def sql_is_def)

lemma matching_comparisons:
  "list_all (\<lambda>fv. supported (snd fv)) assumed \<Longrightarrow>
   matching (map comparison assumed) r = exact_match assumed r"
  by (induction assumed) (simp_all add: matching_def exact_match_def holds_comparison)

lemma find_unsupported_none:
  "list_all (\<lambda>fv. supported (snd fv)) assumed \<Longrightarrow> find (\<lambda>fv. \<not> supported (snd fv)) assumed = None"
  by (induction assumed) simp_all

lemma defaultUpdateHandler_eq:
  assumes "assumedMasterState row = Some assumed"
    and "list_all (\<lambda>fv. supported (snd fv)) assumed"
    and "fault R = None"
  shows "defaultUpdateHandler rep row R =
     (if unique_ok (unique_cols R) (updated_rows (newDocumentState row) assumed (table_rows R))
      then (Inr (length (filter (exact_match assumed) (table_rows R)) = 1),
            R\<lparr>table_rows := updated_rows (newDocumentState row) assumed (table_rows R)\<rparr>)
      else (Inl (RemoteError duplicate_key), R))"
proof -
  have m: "matching (map comparison assumed) = exact_match assumed"
    using matching_comparisons [OF assms(2)] by (simp add: fun_eq_iff)
  show ?thesis
    using assms
    by (simp add: defaultUpdateHandler_def add_conditions_eq find_unsupported_none q_update_def
        r_update_def m updated_rows_def Let_def)
qed

lemma updated_rows_none:
  "filter (exact_match assumed) rows = [] \<Longrightarrow> updated_rows doc assumed rows = rows"
  by (induction rows) (auto simp: updated_rows_def split: if_splits)

lemma handleUpdate_default:
  assumes "updateHandler rep = None"
  shows "handleUpdate rep R row =
     (case defaultUpdateHandler rep row R of
        (Inl err, R') \<Rightarrow> (Inl err, R')
      | (Inr applied, R') \<Rightarrow>
          if applied then (Inr [], R')
          else (case fetchByPrimaryKey rep R' (row_get (newDocumentState row) (primaryKey rep)) of
                  Inl err \<Rightarrow> (Inl err, R')
                | Inr d \<Rightarrow> (Inr [d], R')))"
  using assms by (simp add: handleUpdate_def)

lemma pushHandler_update:
  assumes "updateHandler rep = None" and "assumedMasterState row = Some assumed"
  shows "pushHandler rep R [row] =
     (case defaultUpdateHandler rep row R of
        (Inl err, R') \<Rightarrow> (Inl err, R')
      | (Inr applied, R') \<Rightarrow>
          if applied then (Inr [], R')
          else (case fetchByPrimaryKey rep R' (row_get (newDocumentState row) (primaryKey rep)) of
                  Inl err \<Rightarrow> (Inl err, R')
                | Inr d \<Rightarrow> (Inr [d], R')))"
  using assms by (simp add: pushHandler_def handleUpdate_default)

text \<open>
  C6. A push of one row with an assumed state, handled by the default update handler with
  fields it supports, on a remote that answers and whose table satisfies its uniqueness
  constraints. When exactly one row matches the assumed state exactly and the update is
  accepted, the row is updated and the result is the empty list. When no row matches
  (some field of the assumed state differs from every remote row) and a remote row has
  the document's primary key, the table is left as it was and the result is that row as
  a one-element list, not an error.
\<close>

theorem update_outcomes:
  assumes "updateHandler rep = None"
    and "assumedMasterState row = Some assumed"
    and "list_all (\<lambda>fv. supported (snd fv)) assumed"
    and "fault R = None"
    and "unique_ok (unique_cols R) (table_rows R)"
  shows "(length (filter (exact_match assumed) (table_rows R)) = 1 \<and>
          unique_ok (unique_cols R) (updated_rows (newDocumentState row) assumed (table_rows R)) \<longrightarrow>
            pushHandler rep R [row] =
              (Inr [], R\<lparr>table_rows := updated_rows (newDocumentState row) assumed (table_rows R)\<rparr>)) \<and>
         (filter (exact_match assumed) (table_rows R) = [] \<and>
          (\<exists>r\<in>set (table_rows R).
             sql_eq (column r (primaryKey rep)) (column (newDocumentState row) (primaryKey rep))) \<longrightarrow>
            (\<exists>r\<in>set (table_rows R).
               sql_eq (column r (primaryKey rep)) (column (newDocumentState row) (primaryKey rep)) \<and>
               pushHandler rep R [row] = (Inr [r], R)))"
proof (intro conjI impI)
  let ?doc = "newDocumentState row"
  note ph = pushHandler_update [OF assms(1,2), of R]
  note du = defaultUpdateHandler_eq [OF assms(2,3,4), of rep]
  {
    assume "length (filter (exact_match assumed) (table_rows R)) = 1 \<and>
      unique_ok (unique_cols R) (updated_rows ?doc assumed (table_rows R))"
    then show "pushHandler rep R [row] =
        (Inr [], R\<lparr>table_rows := updated_rows ?doc assumed (table_rows R)\<rparr>)"
      by (simp add: ph du)
  }
  {
    assume h: "filter (exact_match assumed) (table_rows R) = [] \<and>
      (\<exists>r\<in>set (table_rows R). sql_eq (column r (primaryKey rep)) (column ?doc (primaryKey rep)))"
    then obtain r0 where r0: "r0 \<in> set (table_rows R)"
      and eq0: "sql_eq (column r0 (primaryKey rep)) (column ?doc (primaryKey rep))" by blast
    from h have same: "updated_rows ?doc assumed (table_rows R) = table_rows R"
      by (simp add: updated_rows_none)
    from h same assms(5) have d: "defaultUpdateHandler rep row R = (Inr False, R)"
      by (simp add: du)
    from eq0 have "column ?doc (primaryKey rep) \<noteq> JNull" by (simp add: sql_eq_def)
    then have k: "row_get ?doc (primaryKey rep) = column ?doc (primaryKey rep)"
      by (rule row_get_column)
    from rows_with_key_nonempty [OF r0 eq0] obtain r rest where
      rk: "rows_with_key rep (column ?doc (primaryKey rep)) (table_rows R) = r # rest"
      by (cases "rows_with_key rep (column ?doc (primaryKey rep)) (table_rows R)") auto
    from fetchByPrimaryKey_eq [OF assms(4), of rep "column ?doc (primaryKey rep)"] rk
    have "fetchByPrimaryKey rep R (column ?doc (primaryKey rep)) = Inr r" by simp
    with d k have "pushHandler rep R [row] = (Inr [r], R)"
      by (simp add: ph)
    with rows_with_key_member [OF rk]
    show "\<exists>r\<in>set (table_rows R).
        sql_eq (column r (primaryKey rep)) (column ?doc (primaryKey rep)) \<and>
        pushHandler rep R [row] = (Inr [r], R)" by blast
  }
qed

text \<open>Witness for C6, on the table with Alice, aged 5: an update that assumes age 5, and
  one that assumes age 4.\<close>

theorem update_outcomes_witness:
  "pushHandler humans_replication alice_5
       [update_of (human ''1'' ''2023-05-01T10:00:00'' (JNum 6))
                  [(''id'', JStr ''1''), (''age'', JNum 5)]] =
     (Inr [], humans [human ''1'' ''2023-05-01T10:00:00'' (JNum 6)]) \<and>
   pushHandler humans_replication alice_5
       [update_of (human ''1'' ''2023-05-01T10:00:00'' (JNum 6))
                  [(''id'', JStr ''1''), (''age'', JNum 4)]] =
     (Inr [human ''1'' ''2023-05-01T10:00:00'' (JNum 5)], alice_5)"
proof -
  let ?doc = "human ''1'' ''2023-05-01T10:00:00'' (JNum 6)"
  have u: "updateHandler humans_replication = None" by (simp add: humans_replication_def)
  have a: "assumedMasterState (update_of d s) = Some s" for d s by (simp add: update_of_def)
  have sup: "list_all (\<lambda>fv. supported (snd fv)) [(''id'', JStr ''1''), (''age'', JNum n)]" for n
    by (simp add: supported_def)
  have f: "fault alice_5 = None" by (simp add: alice_5_def humans_def)
  have ok: "unique_ok (unique_cols alice_5) (table_rows alice_5)"
    by (simp add: alice_5_def humans_def)
  have one: "length (filter (exact_match [(''id'', JStr ''1''), (''age'', JNum 5)]) (table_rows alice_5)) = 1 \<and>
      unique_ok (unique_cols alice_5)
        (updated_rows (newDocumentState (update_of ?doc [(''id'', JStr ''1''), (''age'', JNum 5)]))
           [(''id'', JStr ''1''), (''age'', JNum 5)] (table_rows alice_5))"
    by (simp add: alice_5_def humans_def human_def exact_match_def column_def updated_rows_def)
  have new: "alice_5\<lparr>table_rows :=
        updated_rows (newDocumentState (update_of ?doc [(''id'', JStr ''1''), (''age'', JNum 5)]))
          [(''id'', JStr ''1''), (''age'', JNum 5)] (table_rows alice_5)\<rparr> =
      humans [human ''1'' ''2023-05-01T10:00:00'' (JNum 6)]"
    by (simp add: alice_5_def humans_def human_def exact_match_def column_def updated_rows_def
        set_columns_def update_of_def)
  have none: "filter (exact_match [(''id'', JStr ''1''), (''age'', JNum 4)]) (table_rows alice_5) = [] \<and>
      (\<exists>r\<in>set (table_rows alice_5).
         sql_eq (column r (primaryKey humans_replication))
           (column (newDocumentState (update_of ?doc [(''id'', JStr ''1''), (''age'', JNum 4)]))
              (primaryKey humans_replication)))"
    by (simp add: alice_5_def humans_def human_def exact_match_def column_def update_of_def
        humans_replication_def sql_eq_def)
  have s: "set (table_rows alice_5) = {human ''1'' ''2023-05-01T10:00:00'' (JNum 5)}"
    by (simp add: alice_5_def humans_def)
  from update_outcomes [OF u a [of ?doc "[(''id'', JStr ''1''), (''age'', JNum 5)]"] sup [of 5] f ok]
    one new
  have 1: "pushHandler humans_replication alice_5
       [update_of ?doc [(''id'', JStr ''1''), (''age'', JNum 5)]] =
     (Inr [], humans [human ''1'' ''2023-05-01T10:00:00'' (JNum 6)])"
    by simp
  from update_outcomes [OF u a [of ?doc "[(''id'', JStr ''1''), (''age'', JNum 4)]"] sup [of 4] f ok]
    none s
  have 2: "pushHandler humans_replication alice_5
       [update_of ?doc [(''id'', JStr ''1''), (''age'', JNum 4)]] =
     (Inr [human ''1'' ''2023-05-01T10:00:00'' (JNum 5)], alice_5)"
    by simp
  from 1 2 show ?thesis by (rule conjI)
qed

text \<open>
  C7, as the code has it. When the conditional update of the default handler matches
  more than one row and is accepted, it stays applied to every matching row, the handler
  answers that the update was not applied, and the push takes the conflict path: it
  returns the first row that has the document's primary key as a one-element list, and
  raises an error only when no row has that key. It never returns the empty list, and
  it raises no error for the count.
\<close>

theorem update_of_many_rows:
  assumes "updateHandler rep = None"
    and "assumedMasterState row = Some assumed"
    and "list_all (\<lambda>fv. supported (snd fv)) assumed"
    and "fault R = None"
    and "1 < length (filter (exact_match assumed) (table_rows R))"
    and "unique_ok (unique_cols R) (updated_rows (newDocumentState row) assumed (table_rows R))"
  shows "pushHandler rep R [row] =
     (case rows_with_key rep (row_get (newDocumentState row) (primaryKey rep))
             (updated_rows (newDocumentState row) assumed (table_rows R)) of
        [] \<Rightarrow> (Inl NoRowWithPrimaryKey,
               R\<lparr>table_rows := updated_rows (newDocumentState row) assumed (table_rows R)\<rparr>)
      | r # rest \<Rightarrow> (Inr [r],
               R\<lparr>table_rows := updated_rows (newDocumentState row) assumed (table_rows R)\<rparr>))"
proof -
  let ?R' = "R\<lparr>table_rows := updated_rows (newDocumentState row) assumed (table_rows R)\<rparr>"
  have d: "defaultUpdateHandler rep row R = (Inr False, ?R')"
    using assms(5,6) by (simp add: defaultUpdateHandler_eq [OF assms(2,3,4), of rep])
  have f: "fault ?R' = None" using assms(4) by simp
  show ?thesis
    by (simp add: pushHandler_update [OF assms(1,2)] d fetchByPrimaryKey_eq [OF f]
        split: list.split)
qed

text \<open>Witness for C7, on the table without uniqueness constraint: both rows match
  \<^verbatim>\<open>{age: null}\<close>.\<close>

theorem update_of_many_rows_witness:
  "pushHandler humans_replication unconstrained
       [update_of (human ''2'' ''2023-05-01T10:00:00'' (JNum 7)) [(''age'', JNull)]] =
     (Inr [human ''2'' ''2023-05-01T10:00:00'' (JNum 7)],
      unconstrained\<lparr>table_rows := [human ''2'' ''2023-05-01T10:00:00'' (JNum 7),
                                    human ''2'' ''2023-05-01T10:00:00'' (JNum 7)]\<rparr>)"
proof -
  let ?doc = "human ''2'' ''2023-05-01T10:00:00'' (JNum 7)"
  have u: "updateHandler humans_replication = None" by (simp add: humans_replication_def)
  have a: "assumedMasterState (update_of ?doc [(''age'', JNull)]) = Some [(''age'', JNull)]"
    by (simp add: update_of_def)
  have sup: "list_all (\<lambda>fv. supported (snd fv)) [(''age'', JNull)]"
    by (simp add: supported_def)
  have f: "fault unconstrained = None" by (simp add: unconstrained_def)
  have many: "1 < length (filter (exact_match [(''age'', JNull)]) (table_rows unconstrained))"
    by (simp add: unconstrained_def human_def exact_match_def column_def)
  have ok: "unique_ok (unique_cols unconstrained)
      (updated_rows (newDocumentState (update_of ?doc [(''age'', JNull)])) [(''age'', JNull)]
         (table_rows unconstrained))"
    by (simp add: unconstrained_def updated_rows_def collides_def)
  have rows: "updated_rows (newDocumentState (update_of ?doc [(''age'', JNull)])) [(''age'', JNull)]
         (table_rows unconstrained) = [?doc, ?doc]"
    by (simp add: unconstrained_def human_def exact_match_def column_def updated_rows_def
        set_columns_def update_of_def)
  have key: "rows_with_key humans_replication
      (row_get (newDocumentState (update_of ?doc [(''age'', JNull)])) (primaryKey humans_replication))
      [?doc, ?doc] = [?doc, ?doc]"
    by (simp add: rows_with_key_def humans_replication_def human_def update_of_def row_get_def
        column_def sql_eq_def)
  show ?thesis
    using update_of_many_rows [OF u a sup f many ok] by (simp only: rows key list.case)
qed

text \<open>
  Counterexample to C7 as stated: on the table without uniqueness constraint the update
  that assumes \<^verbatim>\<open>{age: null}\<close> changes two rows, and the push
  returns a one-element conflict result, not an error.
\<close>

theorem update_of_many_rows_counterexample:
  "length (filter (exact_match [(''age'', JNull)]) (table_rows unconstrained)) = 2 \<and>
   pushHandler humans_replication unconstrained
       [update_of (human ''1'' ''2023-05-01T10:00:00'' (JNum 5)) [(''age'', JNull)]] =
     (Inr [human ''1'' ''2023-05-01T10:00:00'' (JNum 5)],
      unconstrained\<lparr>table_rows := [human ''1'' ''2023-05-01T10:00:00'' (JNum 5),
                                    human ''1'' ''2023-05-01T10:00:00'' (JNum 5)]\<rparr>)"
  by (simp add: push_eval exact_match_def)

text \<open>
  C8. The default comparator adds one comparison per field of the assumed state, in
  order: equality for a string or a number, \<^verbatim>\<open>is\<close> for a truth value or \<^verbatim>\<open>null\<close>.
  The first field of any other type makes it throw the unsupported-type error, and the
  push fails with that error while the table stays as it was. Pushing an update that
  assumes \<^verbatim>\<open>{age: null}\<close> while the remote age is 5 returns the remote row, with age
  5, as the conflict.
\<close>

theorem default_comparator:
  "add_conditions assumed query =
     (case find (\<lambda>fv. \<not> supported (snd fv)) assumed of
        None \<Rightarrow> Inr (query\<lparr>q_filters := q_filters query @ map comparison assumed\<rparr>)
      | Some fv \<Rightarrow> Inl (UnsupportedFieldType (typeof (snd fv)))) \<and>
   (updateHandler rep = None \<and> assumedMasterState row = Some assumed \<and>
    find (\<lambda>fv. \<not> supported (snd fv)) assumed = Some fv \<longrightarrow>
      pushHandler rep R [row] = (Inl (UnsupportedFieldType (typeof (snd fv))), R)) \<and>
   pushHandler humans_replication alice_5
       [update_of (human ''1'' ''2023-05-01T10:00:00'' (JNum 6)) [(''age'', JNull)]] =
     (Inr [human ''1'' ''2023-05-01T10:00:00'' (JNum 5)], alice_5)"
proof (intro conjI impI)
  show "add_conditions assumed query =
     (case find (\<lambda>fv. \<not> supported (snd fv)) assumed of
        None \<Rightarrow> Inr (query\<lparr>q_filters := q_filters query @ map comparison assumed\<rparr>)
      | Some fv \<Rightarrow> Inl (UnsupportedFieldType (typeof (snd fv))))"
    by (rule add_conditions_eq)
next
  assume h: "updateHandler rep = None \<and> assumedMasterState row = Some assumed \<and>
    find (\<lambda>fv. \<not> supported (snd fv)) assumed = Some fv"
  then have "defaultUpdateHandler rep row R = (Inl (UnsupportedFieldType (typeof (snd fv))), R)"
    by (simp add: defaultUpdateHandler_def add_conditions_eq)
  with h show "pushHandler rep R [row] = (Inl (UnsupportedFieldType (typeof (snd fv))), R)"
    by (simp add: pushHandler_update [of rep row assumed])
next
  show "pushHandler humans_replication alice_5
       [update_of (human ''1'' ''2023-05-01T10:00:00'' (JNum 6)) [(''age'', JNull)]] =
     (Inr [human ''1'' ''2023-05-01T10:00:00'' (JNum 5)], alice_5)"
    by (simp add: push_eval)
qed

text \<open>Witness for C8, at an assumed state with a string, a number, a truth value and
  \<^verbatim>\<open>null\<close>, and at one with an array.\<close>

theorem default_comparator_witness:
  "add_conditions [(''name'', JStr ''Alice''), (''age'', JNum 5), (''_deleted'', JBool False),
                   (''nick'', JNull)] q_update =
     Inr \<lparr>q_filters = [FEq ''name'' (JStr ''Alice''), FEq ''age'' (JNum 5),
                       FIs ''_deleted'' (JBool False), FIs ''nick'' JNull],
          q_order = [], q_limit = None\<rparr> \<and>
   pushHandler humans_replication alice_5
       [update_of (human ''1'' ''2023-05-01T10:00:00'' (JNum 6))
                  [(''age'', JNum 5), (''tags'', JArray [JStr ''a''])]] =
     (Inl (UnsupportedFieldType ''object''), alice_5)"
proof -
  let ?row = "update_of (human ''1'' ''2023-05-01T10:00:00'' (JNum 6))
                  [(''age'', JNum 5), (''tags'', JArray [JStr ''a''])]"
  have h: "updateHandler humans_replication = None \<and>
      assumedMasterState ?row = Some [(''age'', JNum 5), (''tags'', JArray [JStr ''a''])] \<and>
      find (\<lambda>fv. \<not> supported (snd fv)) [(''age'', JNum 5), (''tags'', JArray [JStr ''a''])] =
        Some (''tags'', JArray [JStr ''a''])"
    by (simp add: humans_replication_def update_of_def supported_def)
  have 1: "add_conditions [(''name'', JStr ''Alice''), (''age'', JNum 5), (''_deleted'', JBool False),
                   (''nick'', JNull)] q_update =
     Inr \<lparr>q_filters = [FEq ''name'' (JStr ''Alice''), FEq ''age'' (JNum 5),
                       FIs ''_deleted'' (JBool False), FIs ''nick'' JNull],
          q_order = [], q_limit = None\<rparr>"
    using default_comparator [of "[(''name'', JStr ''Alice''), (''age'', JNum 5),
        (''_deleted'', JBool False), (''nick'', JNull)]" q_update]
    by (simp add: supported_def comparison_def q_update_def)
  have 2: "pushHandler humans_replication alice_5 [?row] =
      (Inl (UnsupportedFieldType ''object''), alice_5)"
    using default_comparator [of "[(''age'', JNum 5), (''tags'', JArray [JStr ''a''])]" _
        humans_replication ?row "(''tags'', JArray [JStr ''a''])" alice_5] h
    by simp
  from 1 2 show ?thesis by (rule conjI)
qed

section \<open>Realtime relay\<close>

lemma concat_nothing: "(\<And>x. x \<in> set xs \<Longrightarrow> f x = []) \<Longrightarrow> concat (map f xs) = []"
  by (induction xs) auto

lemma notify_delete:
  "eventType p = ''DELETE'' \<Longrightarrow> realtimeChanges (notify rep p s) = realtimeChanges s"
  by (simp add: notify_def on_postgres_changes_def concat_nothing)

lemma nth_update_False:
  "i < length xs \<Longrightarrow> xs[c := False] ! i \<Longrightarrow> xs ! i \<and> i \<noteq> c"
  by (cases "i = c") simp_all

lemma cancel_none_subscribed:
  assumes "only_current s"
  shows "none_subscribed (cancel s)"
proof (cases "realtimeChannel s")
  case None
  with assms have "\<not> channels s ! i" if "i < length (channels s)" for i
    using that by (auto simp: only_current_def)
  with None show ?thesis
    by (auto simp: none_subscribed_def cancel_def in_set_conv_nth)
next
  case (Some c)
  have "\<not> (channels s)[c := False] ! i" if i: "i < length (channels s)" for i
  proof
    assume "(channels s)[c := False] ! i"
    from nth_update_False [OF i this] have "channels s ! i" and "i \<noteq> c" by simp_all
    with assms i Some show False by (auto simp: only_current_def)
  qed
  with Some show ?thesis
    by (auto simp: none_subscribed_def cancel_def in_set_conv_nth)
qed

lemma step_none_subscribed:
  assumes "none_subscribed s" and "a \<noteq> Start"
  shows "none_subscribed (step rep s a) \<and> realtimeChanges (step rep s a) = realtimeChanges s"
proof (cases a)
  case Start
  with assms show ?thesis by simp
next
  case Cancel
  with assms show ?thesis
    by (auto simp: none_subscribed_def cancel_def split: option.splits dest: set_update_subset_insert [THEN subsetD])
next
  case (Notify p)
  have "concat (map (\<lambda>subscribed. if subscribed
            then (case on_postgres_changes rep p of None \<Rightarrow> [] | Some ev \<Rightarrow> [ev]) else [])
          (channels s)) = []"
    using assms(1) by (intro concat_nothing) (auto simp: none_subscribed_def)
  with Notify assms show ?thesis by (simp add: notify_def none_subscribed_def)
qed

lemma run_none_subscribed:
  "none_subscribed s \<Longrightarrow> Start \<notin> set acts \<Longrightarrow>
   none_subscribed (run rep acts s) \<and> realtimeChanges (run rep acts s) = realtimeChanges s"
  unfolding run_def
proof (induction acts arbitrary: s)
  case Nil
  then show ?case by simp
next
  case (Cons a acts)
  from Cons.prems have a: "a \<noteq> Start" and rest: "Start \<notin> set acts" by auto
  from step_none_subscribed [OF Cons.prems(1) a, of rep] Cons.IH [of "step rep s a"] rest
  show ?case by simp
qed

lemmas relay_eval =
  run_def start_def cancel_def notify_def watchPostgresChanges_def relay0_def
  on_postgres_changes_def rowToCheckpoint_def rowToRxDoc_def row_get_def
  humans_replication_def human_def bob_inserted_def row_deleted_def

lemma none_subscribed_only_current:
  assumes "none_subscribed s"
  shows "only_current s"
  unfolding only_current_def
proof (intro allI impI)
  fix i
  assume i: "i < length (channels s)" and on: "channels s ! i"
  from i have "channels s ! i \<in> set (channels s)" by (rule nth_mem)
  with assms on show "realtimeChannel s = Some i"
    unfolding none_subscribed_def by blast
qed

lemma watch_after_none:
  assumes "none_subscribed s"
  shows "only_current (watchPostgresChanges s)"
  unfolding only_current_def
proof (intro allI impI)
  fix i
  assume i: "i < length (channels (watchPostgresChanges s))"
    and on: "channels (watchPostgresChanges s) ! i"
  have c: "channels (watchPostgresChanges s) = channels s @ [True]"
    and r: "realtimeChannel (watchPostgresChanges s) = Some (length (channels s))"
    by (simp_all add: watchPostgresChanges_def)
  have "\<not> i < length (channels s)"
  proof
    assume l: "i < length (channels s)"
    then have "channels s ! i \<in> set (channels s)" by (rule nth_mem)
    with assms have "\<not> channels s ! i" unfolding none_subscribed_def by blast
    with on l show False by (simp add: c nth_append)
  qed
  with i have "i = length (channels s)" by (simp add: c)
  then show "realtimeChannel (watchPostgresChanges s) = Some i" by (simp add: r)
qed

lemma start_after_none:
  assumes "none_subscribed s"
  shows "only_current (start rep s)"
  using watch_after_none [OF assms] none_subscribed_only_current [OF assms]
  by (simp add: start_def)

lemma notify_channels: "channels (notify rep p s) = channels s"
    and notify_current: "realtimeChannel (notify rep p s) = realtimeChannel s"
  by (simp_all add: notify_def)

lemma orderly_only_current:
  "orderly started acts \<Longrightarrow> (if started then only_current s else none_subscribed s) \<Longrightarrow>
   only_current (run rep acts s)"
proof (induction started acts arbitrary: s rule: orderly.induct)
  case (1 started)
  then show ?case by (auto simp: run_def none_subscribed_only_current split: if_splits)
next
  case (2 started acts)
  from "2.prems" have ns: "none_subscribed s" and o: "orderly True acts" by simp_all
  from "2.IH" [OF o, of "start rep s"] start_after_none [OF ns, of rep]
  show ?case by (simp add: run_def)
next
  case (3 started acts)
  from "3.prems" have "only_current s"
    by (auto simp: none_subscribed_only_current split: if_splits)
  then have "none_subscribed (cancel s)" by (rule cancel_none_subscribed)
  with "3.IH" [of "cancel s"] "3.prems"(1) show ?case by (simp add: run_def)
next
  case (4 started p acts)
  have "if started then only_current (notify rep p s) else none_subscribed (notify rep p s)"
    using "4.prems"(2)
    by (auto simp: only_current_def none_subscribed_def notify_channels notify_current
        split: if_splits)
  with "4.IH" [of "notify rep p s"] "4.prems"(1) show ?case by (simp add: run_def)
qed

text \<open>
  C9, as the code has it. A notification tagged as a deletion publishes nothing, in
  whatever state the relay is. And in an orderly run, where \<^verbatim>\<open>start\<close> is never called
  while the relay is started, nothing is published after a cancel has returned until
  \<^verbatim>\<open>start\<close> is called again: after any further notifications and cancels, what has
  been published is what had been published when cancel was called.
\<close>

theorem relay_skips_deletions_and_stops:
  "(eventType p = ''DELETE'' \<longrightarrow> realtimeChanges (step rep s (Notify p)) = realtimeChanges s) \<and>
   (orderly False before \<and> Start \<notin> set after \<longrightarrow>
      realtimeChanges (run rep (before @ Cancel # after) relay0) =
      realtimeChanges (run rep before relay0))"
proof (intro conjI impI)
  assume "eventType p = ''DELETE''"
  then show "realtimeChanges (step rep s (Notify p)) = realtimeChanges s"
    by (simp add: notify_delete)
next
  assume h: "orderly False before \<and> Start \<notin> set after"
  let ?s = "run rep before relay0"
  have "none_subscribed relay0" by (simp add: none_subscribed_def relay0_def)
  then have "only_current ?s"
    using orderly_only_current [of False before relay0 rep] h by simp
  then have "none_subscribed (cancel ?s)" by (rule cancel_none_subscribed)
  from run_none_subscribed [OF this, of after rep] h
  have "realtimeChanges (run rep after (cancel ?s)) = realtimeChanges (cancel ?s)" by simp
  moreover have "realtimeChanges (cancel ?s) = realtimeChanges ?s"
    by (simp add: cancel_def split: option.split)
  moreover have "run rep (before @ Cancel # after) relay0 = run rep after (cancel ?s)"
    by (simp add: run_def)
  ultimately show "realtimeChanges (run rep (before @ Cancel # after) relay0) =
      realtimeChanges ?s" by simp
qed

text \<open>Witness for C9, at a run that starts, hears of a deleted row, cancels, starts
  again, hears of an inserted row and of a deleted one, cancels and hears of inserted
  rows: only the insertion heard of while started is published.\<close>

theorem relay_skips_deletions_and_stops_witness:
  "realtimeChanges (run humans_replication
       [Start, Notify row_deleted, Cancel, Start, Notify bob_inserted, Notify row_deleted,
        Cancel, Notify bob_inserted, Cancel, Notify bob_inserted] relay0) =
     [\<lparr>checkpoint = Some \<lparr>modified = JStr ''2023-05-02T08:00:00'', primaryKeyValue = JStr ''2''\<rparr>,
       documents = [human ''2'' ''2023-05-02T08:00:00'' JNull]\<rparr>]"
proof -
  let ?before = "[Start, Notify row_deleted, Cancel, Start, Notify bob_inserted, Notify row_deleted]"
  let ?after = "[Notify bob_inserted, Cancel, Notify bob_inserted]"
  have d: "eventType row_deleted = ''DELETE''" by (simp add: row_deleted_def)
  have n: "orderly False ?before \<and> Start \<notin> set ?after" by simp
  have "realtimeChanges (run humans_replication (?before @ Cancel # ?after) relay0) =
      realtimeChanges (run humans_replication ?before relay0)"
    using relay_skips_deletions_and_stops [of row_deleted humans_replication relay0 ?before ?after] n
    by blast
  also have "\<dots> = realtimeChanges (step humans_replication
      (run humans_replication [Start, Notify row_deleted, Cancel, Start, Notify bob_inserted] relay0)
      (Notify row_deleted))"
    by (simp add: run_def)
  also have "\<dots> = realtimeChanges
      (run humans_replication [Start, Notify row_deleted, Cancel, Start, Notify bob_inserted] relay0)"
    using relay_skips_deletions_and_stops [of row_deleted humans_replication
        "run humans_replication [Start, Notify row_deleted, Cancel, Start, Notify bob_inserted] relay0"
        "[]" "[]"] d by blast
  also have "\<dots> =
     [\<lparr>checkpoint = Some \<lparr>modified = JStr ''2023-05-02T08:00:00'', primaryKeyValue = JStr ''2''\<rparr>,
       documents = [human ''2'' ''2023-05-02T08:00:00'' JNull]\<rparr>]"
    by (simp add: relay_eval)
  finally show ?thesis by simp
qed

text \<open>
  Counterexample to C9 as stated. After a second \<^verbatim>\<open>start\<close> the field holds the second
  channel only, so cancel leaves the first one subscribed and a later insertion is
  published after cancel has returned; and a \<^verbatim>\<open>start\<close> after cancel subscribes
  again, so an insertion after it is published as well.
\<close>

theorem relay_second_start_counterexample:
  "realtimeChanges (run humans_replication [Start, Start, Cancel] relay0) = [] \<and>
   realtimeChanges (run humans_replication [Start, Start, Cancel, Notify bob_inserted] relay0) =
     [\<lparr>checkpoint = Some \<lparr>modified = JStr ''2023-05-02T08:00:00'', primaryKeyValue = JStr ''2''\<rparr>,
       documents = [human ''2'' ''2023-05-02T08:00:00'' JNull]\<rparr>] \<and>
   realtimeChanges (run humans_replication [Start, Cancel] relay0) = [] \<and>
   realtimeChanges (run humans_replication [Start, Cancel, Start, Notify bob_inserted] relay0) =
     [\<lparr>checkpoint = Some \<lparr>modified = JStr ''2023-05-02T08:00:00'', primaryKeyValue = JStr ''2''\<rparr>,
       documents = [human ''2'' ''2023-05-02T08:00:00'' JNull]\<rparr>]"
  by (simp add: relay_eval)

end
